theory Spec2Isabelle
  imports Main
begin

section \<open>Python strings\<close>

text \<open>
  Python's \<^verbatim>\<open>str\<close> is modelled as \<^typ>\<open>string\<close>, one \<^typ>\<open>char\<close> per code point: the
  text of code points up to U+00FF. On these, \<^verbatim>\<open>lower\<close>, \<^verbatim>\<open>isspace\<close>, \<^verbatim>\<open>strip\<close>, the
  test for cased characters and the JSON escaping below are Python's. \<^verbatim>\<open>upper\<close> and
  \<^verbatim>\<open>title\<close> are Python's except on U+00B5 and U+00FF, whose uppercase lies beyond
  U+00FF: these two are left as they are, and \<open>upper_in_type\<close> says that a text holds
  neither of them.
\<close>

text \<open>The uppercase letters: A to Z, and U+00C0 to U+00DE without the multiplication sign.\<close>

definition py_lower_char :: "char \<Rightarrow> char" where
  "py_lower_char c =
     (let n = (of_char c :: nat) in
      if (65 \<le> n \<and> n \<le> 90) \<or> (192 \<le> n \<and> n \<le> 214) \<or> (216 \<le> n \<and> n \<le> 222)
      then char_of (n + 32) else c)"

text \<open>
  The lowercase letters with a one-character uppercase up to U+00FF: a to z, and U+00E0
  to U+00FE without the division sign.
\<close>

definition py_upper_char :: "char \<Rightarrow> char" where
  "py_upper_char c =
     (let n = (of_char c :: nat) in
      if (97 \<le> n \<and> n \<le> 122) \<or> (224 \<le> n \<and> n \<le> 246) \<or> (248 \<le> n \<and> n \<le> 254)
      then char_of (n - 32) else c)"

text \<open>The uppercase and the titlecase of one character; those of U+00DF are two letters.\<close>

definition py_upper_chars :: "char \<Rightarrow> string" where
  "py_upper_chars c = (if (of_char c :: nat) = 223 then ''SS'' else [py_upper_char c])"

definition py_title_chars :: "char \<Rightarrow> string" where
  "py_title_chars c = (if (of_char c :: nat) = 223 then ''Ss'' else [py_upper_char c])"

text \<open>
  The cased characters: the letters above, the two ordinal indicators U+00AA and U+00BA,
  the micro sign U+00B5, and U+00DF and U+00FF.
\<close>

definition py_is_cased :: "char \<Rightarrow> bool" where
  "py_is_cased c =
     (let n = (of_char c :: nat) in
      (65 \<le> n \<and> n \<le> 90) \<or> (97 \<le> n \<and> n \<le> 122) \<or> n = 170 \<or> n = 181 \<or> n = 186 \<or>
      (192 \<le> n \<and> n \<le> 214) \<or> (216 \<le> n \<and> n \<le> 246) \<or> (248 \<le> n \<and> n \<le> 255))"

text \<open>
  \<^verbatim>\<open>str.isspace\<close> on one character, which is also \<^verbatim>\<open>\s\<close> of \<^verbatim>\<open>re\<close>: TAB, LF, VT, FF,
  CR, FS, GS, RS, US, space, NEL (U+0085) and the no-break space (U+00A0).
\<close>

definition py_isspace :: "char \<Rightarrow> bool" where
  "py_isspace c =
     (let n = (of_char c :: nat) in
      (9 \<le> n \<and> n \<le> 13) \<or> (28 \<le> n \<and> n \<le> 32) \<or> n = 133 \<or> n = 160)"

definition py_lower :: "string \<Rightarrow> string" where
  "py_lower s = map py_lower_char s"

definition py_upper :: "string \<Rightarrow> string" where
  "py_upper s = concat (map py_upper_chars s)"

text \<open>No character of the text has its uppercase beyond U+00FF.\<close>

definition upper_in_type :: "string \<Rightarrow> bool" where
  "upper_in_type s = list_all (\<lambda>c. (of_char c :: nat) \<noteq> 181 \<and> (of_char c :: nat) \<noteq> 255) s"

definition py_strip :: "string \<Rightarrow> string" where
  "py_strip s = rev (dropWhile py_isspace (rev (dropWhile py_isspace s)))"

text \<open>
  \<^verbatim>\<open>str.title\<close>: a character that follows a cased character is lowercased, any other
  one is titlecased. The flag is CPython's \<^verbatim>\<open>previous_is_cased\<close>.
\<close>

fun title_from :: "bool \<Rightarrow> string \<Rightarrow> string" where
  "title_from previous_is_cased [] = []"
| "title_from previous_is_cased (c # cs) =
     (if previous_is_cased then [py_lower_char c] else py_title_chars c)
       @ title_from (py_is_cased c) cs"

definition py_title :: "string \<Rightarrow> string" where
  "py_title s = title_from False s"

fun py_startswith :: "string \<Rightarrow> string \<Rightarrow> bool" where
  "py_startswith s [] = True"
| "py_startswith [] (p # ps) = False"
| "py_startswith (c # cs) (p # ps) = (c = p \<and> py_startswith cs ps)"

text \<open>\<^verbatim>\<open>sub in s\<close> on strings.\<close>

fun py_in :: "string \<Rightarrow> string \<Rightarrow> bool" where
  "py_in sub [] = (sub = [])"
| "py_in sub (c # cs) = (py_startswith (c # cs) sub \<or> py_in sub cs)"

text \<open>
  The number of places of a text at which \<open>sub\<close> starts; for a \<open>sub\<close> that cannot
  overlap itself this is \<^verbatim>\<open>s.count(sub)\<close>.
\<close>

fun occurrences :: "string \<Rightarrow> string \<Rightarrow> nat" where
  "occurrences sub [] = 0"
| "occurrences sub (c # cs) = (if py_startswith (c # cs) sub then 1 else 0) + occurrences sub cs"

text \<open>\<^verbatim>\<open>sep.join(items)\<close>.\<close>

fun py_join :: "string \<Rightarrow> string list \<Rightarrow> string" where
  "py_join sep [] = []"
| "py_join sep [x] = x"
| "py_join sep (x # y # ys) = x @ sep @ py_join sep (y # ys)"

text \<open>
  \<^verbatim>\<open>s.split(",")\<close>: the fields between the commas, empty fields kept, so that the
  result is never empty. The accumulator is the field being read.
\<close>

fun split_comma_from :: "string \<Rightarrow> string \<Rightarrow> string list" where
  "split_comma_from field [] = [field]"
| "split_comma_from field (c # cs) =
     (if c = CHR '','' then field # split_comma_from [] cs
      else split_comma_from (field @ [c]) cs)"

definition py_split_comma :: "string \<Rightarrow> string list" where
  "py_split_comma s = split_comma_from [] s"

text \<open>\<^verbatim>\<open>s.replace(old, new)\<close> for a one-character \<^verbatim>\<open>old\<close>.\<close>

definition py_replace_char :: "char \<Rightarrow> string \<Rightarrow> string \<Rightarrow> string" where
  "py_replace_char old new s = concat (map (\<lambda>c. if c = old then new else [c]) s)"

section \<open>The entity extractor (api.py, app.py)\<close>

definition known_entities :: "string list" where
  "known_entities =
     [''OpenAI'', ''Anthropic'', ''Perplexity'', ''Databricks'',
      ''Zepto'', ''Swiggy'', ''Zomato'', ''Blinkit'', ''Meesho'',
      ''Microsoft'', ''NVIDIA'', ''SoftBank'', ''Google'', ''Amazon'']"

text \<open>
  The loop \<^verbatim>\<open>for entity in known_entities: if entity.lower() in query_lower: return entity\<close>;
  \<open>None\<close> when the loop falls through.
\<close>

fun first_known_entity :: "string list \<Rightarrow> string \<Rightarrow> string option" where
  "first_known_entity [] query_lower = None"
| "first_known_entity (entity # rest) query_lower =
     (if py_in (py_lower entity) query_lower then Some entity
      else first_known_entity rest query_lower)"

text \<open>
  \<^verbatim>\<open>re.sub(f"^{p}", "", s, flags=re.IGNORECASE)\<close> for a pattern \<open>p\<close> that is literal
  text followed by \<^verbatim>\<open>\s+\<close>: when \<open>s\<close> starts with the literal, compared without case,
  and at least one blank follows, the literal and the whole run of blanks are removed;
  otherwise \<open>s\<close> is returned as it is. The anchor \<^verbatim>\<open>^\<close> allows one match only.
\<close>

definition re_sub_prefix :: "string \<Rightarrow> string \<Rightarrow> string" where
  "re_sub_prefix lit s =
     (let rest = drop (length lit) s in
      if py_lower (take (length lit) s) = py_lower lit \<and> rest \<noteq> [] \<and> py_isspace (hd rest)
      then dropWhile py_isspace rest else s)"

text \<open>The literal parts of the prefix patterns; each is followed by \<^verbatim>\<open>\s+\<close> in the source.\<close>

definition api_prefixes :: "string list" where
  "api_prefixes =
     [''research'', ''analyze'', ''write an investment memo for'', ''memo for'',
      ''tell me about'']"

definition app_prefixes :: "string list" where
  "app_prefixes =
     [''research'', ''analyze'', ''analyse'', ''investment memo for'', ''memo for'',
      ''write an investment for'', ''write a report on'', ''write an investment memo for'',
      ''tell me about'', ''who is'', ''what is'']"

definition extract_entity_with :: "string list \<Rightarrow> string \<Rightarrow> string" where
  "extract_entity_with prefixes query =
     (if query = [] then []
      else case first_known_entity known_entities (py_lower query) of
             Some entity \<Rightarrow> entity
           | None \<Rightarrow> py_title (py_strip (foldl (\<lambda>clean_query p. re_sub_prefix p clean_query)
                                              query prefixes)))"

text \<open>\<^verbatim>\<open>extract_entity_from_query\<close> of api.py and the one of app.py.\<close>

definition extract_entity_from_query :: "string \<Rightarrow> string" where
  "extract_entity_from_query query = extract_entity_with api_prefixes query"

definition extract_entity_from_query_app :: "string \<Rightarrow> string" where
  "extract_entity_from_query_app query = extract_entity_with app_prefixes query"

section \<open>JSON encoding (json.dumps)\<close>

text \<open>
  The values \<^verbatim>\<open>json.dumps\<close> is given here: \<^verbatim>\<open>None\<close>, booleans, integers, strings,
  lists, and dictionaries with string keys in insertion order. Floats are left out.
\<close>

datatype json = JNull | JBool bool | JInt int | JStr string | JList "json list"
  | JObj "(string \<times> json) list"

definition hex_digit :: "nat \<Rightarrow> char" where
  "hex_digit k = ''0123456789abcdef'' ! (k mod 16)"

text \<open>
  The encoder's escape table with \<^verbatim>\<open>ensure_ascii=True\<close>: the quote and the backslash
  get a backslash, the five short escapes are used for LF, CR, TAB, BS and FF, the
  characters from space to tilde stand for themselves, and anything else is written
  \<^verbatim>\<open>\u00xx\<close>.
\<close>

definition json_escape_char :: "char \<Rightarrow> string" where
  "json_escape_char c =
     (let n = (of_char c :: nat) in
      if c = CHR 0x22 then [CHR 0x5C, CHR 0x22]
      else if c = CHR 0x5C then [CHR 0x5C, CHR 0x5C]
      else if c = CHR 0x0A then [CHR 0x5C, CHR ''n'']
      else if c = CHR 0x0D then [CHR 0x5C, CHR ''r'']
      else if c = CHR 0x09 then [CHR 0x5C, CHR ''t'']
      else if c = CHR 0x08 then [CHR 0x5C, CHR ''b'']
      else if c = CHR 0x0C then [CHR 0x5C, CHR ''f'']
      else if 32 \<le> n \<and> n \<le> 126 then [c]
      else [CHR 0x5C, CHR ''u'', CHR ''0'', CHR ''0'', hex_digit (n div 16), hex_digit n])"

definition json_string :: "string \<Rightarrow> string" where
  "json_string s = [CHR 0x22] @ concat (map json_escape_char s) @ [CHR 0x22]"

function show_nat :: "nat \<Rightarrow> string" where
  "show_nat n =
     (if n < 10 then [char_of (48 + n)]
      else show_nat (n div 10) @ [char_of (48 + n mod 10)])"
  by pat_completeness auto
termination
  by (relation "measure id") auto

declare show_nat.simps [simp del]

definition show_int :: "int \<Rightarrow> string" where
  "show_int i = (if i < 0 then CHR ''-'' # show_nat (nat (- i)) else show_nat (nat i))"

text \<open>The default separators: a comma and a space between items, a colon and a space after a key.\<close>

fun json_dumps :: "json \<Rightarrow> string" where
  "json_dumps JNull = ''null''"
| "json_dumps (JBool b) = (if b then ''true'' else ''false'')"
| "json_dumps (JInt i) = show_int i"
| "json_dumps (JStr s) = json_string s"
| "json_dumps (JList xs) = ''['' @ py_join '', '' (map json_dumps xs) @ '']''"
| "json_dumps (JObj kvs) =
     ''{'' @ py_join '', ''
               (map (\<lambda>kv. json_string (fst kv) @ '': '' @ json_dumps (snd kv)) kvs) @ ''}''"

definition printable :: "char \<Rightarrow> bool" where
  "printable c = (32 \<le> (of_char c :: nat) \<and> (of_char c :: nat) \<le> 126)"

section \<open>The action emitter (whiteboard_tools.py)\<close>

definition newline :: string where
  "newline = [CHR 0x0A]"

text \<open>
  The delimiters of \<^verbatim>\<open>emit_action\<close>'s f-string, as api.py looks for them
  (\<^verbatim>\<open>"<<<ACTION:" in output_str\<close>).
\<close>

definition action_start :: string where
  "action_start = ''<<<ACTION:''"

definition action_end :: string where
  "action_end = '':ACTION>>>''"

definition action_record :: "json \<Rightarrow> string" where
  "action_record action = newline @ action_start @ json_dumps action @ action_end @ newline"

definition emit_action :: "string \<Rightarrow> json \<Rightarrow> string" where
  "emit_action action_type data =
     (let action = JObj [(''type'', JStr action_type), (''data'', data)]
      in newline @ action_start @ json_dumps action @ action_end @ newline)"

text \<open>\<^verbatim>\<open>ACTION_TYPES["CREATE_NODE"]\<close> and \<^verbatim>\<open>ACTION_TYPES["CREATE_CHART"]\<close>.\<close>

definition CREATE_NODE :: string where
  "CREATE_NODE = ''create_node''"

definition CREATE_CHART :: string where
  "CREATE_CHART = ''create_chart''"

definition create_text_node :: "string \<Rightarrow> string \<Rightarrow> string" where
  "create_text_node title content =
     emit_action CREATE_NODE
       (JObj [(''title'', JStr title), (''node_type'', JStr ''text''),
              (''data'', JObj [(''content'', JStr content)])])"

text \<open>The dictionary that \<^verbatim>\<open>analyze_portfolio\<close> appends for one ticker.\<close>

definition portfolio_action :: "string \<Rightarrow> json" where
  "portfolio_action ticker =
     JObj [(''type'', JStr CREATE_CHART),
           (''data'', JObj [(''title'', JStr (ticker @ '' Chart'')),
                            (''node_type'', JStr ''chart''),
                            (''chart'', JObj [(''ticker'', JStr ticker),
                                              (''chartType'', JStr ''line''),
                                              (''timeframe'', JStr ''1M'')])])]"

text \<open>
  \<^verbatim>\<open>analyze_portfolio\<close>: the list comprehension, the loop over \<^verbatim>\<open>ticker_list[:6]\<close>
  that appends to \<^verbatim>\<open>actions\<close>, the loop that appends each record to \<^verbatim>\<open>result\<close>, and
  the closing sentence.
\<close>

definition analyze_portfolio :: "string \<Rightarrow> string" where
  "analyze_portfolio tickers =
     (let ticker_list = map (\<lambda>t. py_upper (py_strip t)) (py_split_comma tickers);
          actions = foldl (\<lambda>actions ticker. actions @ [portfolio_action ticker]) []
                      (take 6 ticker_list);
          result = foldl (\<lambda>result action.
                      result @ newline @ action_start @ json_dumps action @ action_end @ newline)
                    [] actions
      in result @ newline @ ''Created portfolio view for: '' @ py_join '', '' ticker_list)"

section \<open>The graph store\<close>

text \<open>
  The property graph behind \<^verbatim>\<open>Neo4jGraph\<close>. A node has a set of labels and the
  property \<^verbatim>\<open>id\<close>; its position in the list is its identity in the store, so two
  nodes may carry the same \<^verbatim>\<open>id\<close>. An edge joins two positions under a relationship
  type. No statement of the research tool deletes a node.
\<close>

record node =
  labels :: "string list"
  node_id :: string

record graph =
  nodes :: "node list"
  edges :: "(nat \<times> string \<times> nat) list"

definition empty_graph :: graph where
  "empty_graph = \<lparr>nodes = [], edges = []\<rparr>"

text \<open>
  The three statements of \<^verbatim>\<open>research_and_learn\<close>, with the interpolated name and the
  parameters of each:
  \<^item> \<open>MergeNode label name\<close> is \<^verbatim>\<open>MERGE (n:<label> {id: $name})\<close>;
  \<^item> \<open>SetLabel name label\<close> is \<^verbatim>\<open>MATCH (n {id: $name}) SET n:<label>\<close>;
  \<^item> \<open>MergeEdge source target rel_type\<close> is
    \<^verbatim>\<open>MATCH (a {id: $source}), (b {id: $target}) MERGE (a)-[:<rel_type>]->(b)\<close>.
\<close>

datatype stmt =
    MergeNode string string
  | SetLabel string string
  | MergeEdge string string string

text \<open>
  \<^verbatim>\<open>MERGE\<close> of a node pattern: the pattern is matched as a whole, label and
  \<^verbatim>\<open>id\<close> together, and a node with just that label and that \<^verbatim>\<open>id\<close> is created when
  nothing matches.
\<close>

definition merge_node :: "string \<Rightarrow> string \<Rightarrow> graph \<Rightarrow> graph" where
  "merge_node label name g =
     (if list_ex (\<lambda>n. label \<in> set (labels n) \<and> node_id n = name) (nodes g) then g
      else g\<lparr>nodes := nodes g @ [\<lparr>labels = [label], node_id = name\<rparr>]\<rparr>)"

text \<open>\<^verbatim>\<open>MATCH (n {id: $name}) SET n:<label>\<close>: every node with that \<^verbatim>\<open>id\<close> gets the label.\<close>

definition set_label :: "string \<Rightarrow> string \<Rightarrow> graph \<Rightarrow> graph" where
  "set_label name label g =
     g\<lparr>nodes := map (\<lambda>n. if node_id n = name then n\<lparr>labels := List.insert label (labels n)\<rparr>
                            else n) (nodes g)\<rparr>"

text \<open>The positions of the nodes that \<^verbatim>\<open>MATCH (a {id: $name})\<close> binds.\<close>

definition matching :: "string \<Rightarrow> graph \<Rightarrow> nat list" where
  "matching name g = filter (\<lambda>i. node_id (nodes g ! i) = name) [0..<length (nodes g)]"

text \<open>\<^verbatim>\<open>MERGE\<close> of one relationship between two bound nodes.\<close>

definition merge_rel :: "nat \<times> string \<times> nat \<Rightarrow> (nat \<times> string \<times> nat) list
    \<Rightarrow> (nat \<times> string \<times> nat) list" where
  "merge_rel e es = (if e \<in> set es then es else es @ [e])"

text \<open>
  The edge statement: one row per pair of a node matching the source and a node matching
  the target, and the \<^verbatim>\<open>MERGE\<close> of the relationship for each row. No row, no edge.
\<close>

definition merge_edge :: "string \<Rightarrow> string \<Rightarrow> string \<Rightarrow> graph \<Rightarrow> graph" where
  "merge_edge source target rel_type g =
     g\<lparr>edges := foldl (\<lambda>es row. merge_rel (fst row, rel_type, snd row) es) (edges g)
                    (List.product (matching source g) (matching target g))\<rparr>"

definition ascii_letter :: "char \<Rightarrow> bool" where
  "ascii_letter c =
     (let n = (of_char c :: nat) in (65 \<le> n \<and> n \<le> 90) \<or> (97 \<le> n \<and> n \<le> 122))"

definition ascii_digit :: "char \<Rightarrow> bool" where
  "ascii_digit c = (let n = (of_char c :: nat) in 48 \<le> n \<and> n \<le> 57)"

text \<open>
  The relationship type is spliced into the statement text. The statement has the form
  above when the spliced text is a name: a letter or an underscore, then letters,
  digits and underscores.
\<close>

definition cypher_name :: "string \<Rightarrow> bool" where
  "cypher_name s =
     (case s of [] \<Rightarrow> False
      | c # cs \<Rightarrow> (ascii_letter c \<or> c = CHR ''_'') \<and>
                 list_all (\<lambda>d. ascii_letter d \<or> ascii_digit d \<or> d = CHR ''_'') cs)"

text \<open>
  \<^verbatim>\<open>graph.query\<close> on the store: \<open>Inl\<close> is the message of the exception the driver
  raises. A relationship type that is not a name is answered with a syntax error; text
  built to be read as further clauses is not followed here.
\<close>

fun neo4j_query :: "stmt \<Rightarrow> graph \<Rightarrow> string + graph" where
  "neo4j_query (MergeNode label name) g = Inr (merge_node label name g)"
| "neo4j_query (SetLabel name label) g = Inr (set_label name label g)"
| "neo4j_query (MergeEdge source target rel_type) g =
     (if cypher_name rel_type then Inr (merge_edge source target rel_type g)
      else Inl ''CypherSyntaxError'')"

section \<open>The research tool (tools.py)\<close>

text \<open>
  What the tool calls outside the repository: the search tool, the language model, the
  JSON parser and the graph store. A call that raises is \<open>Inl\<close> of the exception's
  message, \<^verbatim>\<open>str(e)\<close>. \<open>llm_invoke\<close> is the construction of the client,
  \<^verbatim>\<open>ChatGroq(...)\<close>, followed by \<^verbatim>\<open>llm.invoke(extraction_prompt).content\<close>: both
  stand between the two \<^verbatim>\<open>try\<close> blocks, and \<open>Inl\<close> is an exception of either. The
  store is a parameter with a state of its own type, so that it can be the Neo4j model
  above, a store that fails, or one that logs.
\<close>

text \<open>
  The decoded JSON object: the entity lists by key, and the relationship dictionaries.
  An absent key is \<open>None\<close>; \<^verbatim>\<open>data.get(key, [])\<close> then gives the empty list. All
  values are strings.
\<close>

record extraction =
  entity_lists :: "(string \<times> string list) list"
  relationships :: "(string \<times> string) list list option"

record 's env =
  search_available :: bool
  search_invoke :: "string \<Rightarrow> string + string"
  llm_invoke :: "string \<Rightarrow> string + string"
  json_loads :: "string \<Rightarrow> string + extraction"
  graph_query :: "stmt \<Rightarrow> 's \<Rightarrow> string + 's"

text \<open>How a call of the tool ends: it returns a string, or an exception leaves it.\<close>

datatype outcome = Returned string | Raised string

text \<open>The text of \<^verbatim>\<open>extraction_prompt\<close> before and after the spliced \<^verbatim>\<open>raw_text\<close>, by lines.\<close>

definition prompt_head_lines :: "string list" where
  \<open>prompt_head_lines =
     ['''',
      ''    You are a Data Engineer. Extract structured data.'',
      ''    '',
      ''    Rules:'',
      ''    1. Identify Companies, People, Sectors, Locations.'',
      ''    2. Relationships:'',
      ''       - INVESTED_IN (Investor -> Company)'',
      ''       - FOUNDED_BY (Company -> Person)'',
      ''       - LEADS (Person -> Company) -> USE THIS FOR CEOs / Executives!'',
      ''       - OPERATES_IN (Company -> Sector)'',
      ''       - LOCATED_AT (Company -> Location)'',
      ''    '',
      ''    Output strictly valid JSON:'',
      ''    {'',
      ''      "companies": ["Name"],'',
      ''      "people": ["Name"],'',
      ''      "sectors": ["Name"],'',
      ''      "locations": ["Name"],'',
      ''      "relationships": ['',
      ''        {"source": "PersonName", "target": "CompanyName", "type": "LEADS"},'',
      ''        {"source": "InvestorName", "target": "CompanyName", "type": "INVESTED_IN"}'',
      ''      ]'',
      ''    }'',
      '''',
      ''    Text:'',
      ''    '']\<close>

definition prompt_tail_lines :: "string list" where
  \<open>prompt_tail_lines =
     ['''',
      ''    '']\<close>

definition extraction_prompt :: "string \<Rightarrow> string" where
  "extraction_prompt raw_text =
     py_join newline prompt_head_lines @ raw_text @ py_join newline prompt_tail_lines"

text \<open>\<^verbatim>\<open>s.replace(old, new)\<close> for a non-empty \<^verbatim>\<open>old\<close>, leftmost occurrences first.\<close>

function py_replace :: "string \<Rightarrow> string \<Rightarrow> string \<Rightarrow> string" where
  "py_replace old new [] = []"
| "py_replace old new (c # cs) =
     (if old \<noteq> [] \<and> py_startswith (c # cs) old
      then new @ py_replace old new (drop (length old) (c # cs))
      else c # py_replace old new cs)"
  by pat_completeness auto
termination
  by (relation "measure (\<lambda>(old, new, s). length s)") auto

text \<open>\<^verbatim>\<open>data.get(key, [])\<close>.\<close>

definition data_get :: "extraction \<Rightarrow> string \<Rightarrow> string list" where
  "data_get data key = (case map_of (entity_lists data) key of None \<Rightarrow> [] | Some items \<Rightarrow> items)"

text \<open>\<^verbatim>\<open>str(KeyError(key))\<close>: the key between single quotes.\<close>

definition key_error :: "string \<Rightarrow> string" where
  "key_error key = [CHR 0x27] @ key @ [CHR 0x27]"

text \<open>
  The loops below return the message of the exception that ended them, if any, and the
  state of the store at that point: every statement is committed on its own, so the
  writes made before an exception stay.
\<close>

text \<open>\<^verbatim>\<open>for item in data.get(key, []): graph.query(MERGE ...)\<close>.\<close>

fun merge_items :: "'s env \<Rightarrow> string \<Rightarrow> string list \<Rightarrow> 's \<Rightarrow> string option \<times> 's" where
  "merge_items env label [] s = (None, s)"
| "merge_items env label (item # items) s =
     (case graph_query env (MergeNode label item) s of
        Inl e \<Rightarrow> (Some e, s)
      | Inr s' \<Rightarrow> merge_items env label items s')"

definition label_of_key :: "string \<Rightarrow> string" where
  "label_of_key key =
     (if key = ''companies'' then ''Organization''
      else if key = ''people'' then ''Person''
      else if key = ''sectors'' then ''Sector''
      else ''Location'')"

text \<open>\<^verbatim>\<open>for key in ["companies", "people", "sectors", "locations"]\<close>.\<close>

fun create_nodes :: "'s env \<Rightarrow> extraction \<Rightarrow> string list \<Rightarrow> 's \<Rightarrow> string option \<times> 's" where
  "create_nodes env data [] s = (None, s)"
| "create_nodes env data (key # keys) s =
     (case merge_items env (label_of_key key) (data_get data key) s of
        (Some e, s') \<Rightarrow> (Some e, s')
      | (None, s') \<Rightarrow> create_nodes env data keys s')"

text \<open>
  The body of the relationship loop for one dictionary \<open>rel\<close>: the type is read and
  uppercased, an \<^verbatim>\<open>INVESTED_IN\<close> source is given the \<^verbatim>\<open>Investor\<close> label, and the edge
  is merged. A missing key raises \<^verbatim>\<open>KeyError\<close>.
\<close>

definition promote_investor :: "'s env \<Rightarrow> (string \<times> string) list \<Rightarrow> string \<Rightarrow> 's
    \<Rightarrow> string option \<times> 's" where
  "promote_investor env rel rel_type s =
     (if rel_type = ''INVESTED_IN'' then
        (case map_of rel ''source'' of
           None \<Rightarrow> (Some (key_error ''source''), s)
         | Some source \<Rightarrow>
             (case graph_query env (SetLabel source ''Investor'') s of
                Inl e \<Rightarrow> (Some e, s)
              | Inr s' \<Rightarrow> (None, s')))
      else (None, s))"

definition merge_relationship :: "'s env \<Rightarrow> (string \<times> string) list \<Rightarrow> string \<Rightarrow> 's
    \<Rightarrow> string option \<times> 's" where
  "merge_relationship env rel rel_type s =
     (case map_of rel ''source'' of
        None \<Rightarrow> (Some (key_error ''source''), s)
      | Some source \<Rightarrow>
          (case map_of rel ''target'' of
             None \<Rightarrow> (Some (key_error ''target''), s)
           | Some target \<Rightarrow>
               (case graph_query env (MergeEdge source target rel_type) s of
                  Inl e \<Rightarrow> (Some e, s)
                | Inr s' \<Rightarrow> (None, s'))))"

definition apply_relationship :: "'s env \<Rightarrow> (string \<times> string) list \<Rightarrow> 's
    \<Rightarrow> string option \<times> 's" where
  "apply_relationship env rel s =
     (case map_of rel ''type'' of
        None \<Rightarrow> (Some (key_error ''type''), s)
      | Some ty \<Rightarrow>
          (let rel_type = py_upper ty in
           case promote_investor env rel rel_type s of
             (Some e, s') \<Rightarrow> (Some e, s')
           | (None, s') \<Rightarrow> merge_relationship env rel rel_type s'))"

text \<open>\<^verbatim>\<open>for rel in data.get("relationships", [])\<close>.\<close>

fun create_relationships :: "'s env \<Rightarrow> (string \<times> string) list list \<Rightarrow> 's
    \<Rightarrow> string option \<times> 's" where
  "create_relationships env [] s = (None, s)"
| "create_relationships env (rel # rels) s =
     (case apply_relationship env rel s of
        (Some e, s') \<Rightarrow> (Some e, s')
      | (None, s') \<Rightarrow> create_relationships env rels s')"

definition entity_keys :: "string list" where
  "entity_keys = [''companies'', ''people'', ''sectors'', ''locations'']"

text \<open>The two write loops in their order in the source.\<close>

definition write_graph :: "'s env \<Rightarrow> extraction \<Rightarrow> 's \<Rightarrow> string option \<times> 's" where
  "write_graph env data s =
     (case create_nodes env data entity_keys s of
        (Some e, s') \<Rightarrow> (Some e, s')
      | (None, s') \<Rightarrow>
          create_relationships env
            (case relationships data of None \<Rightarrow> [] | Some rels \<Rightarrow> rels) s')"

definition summary :: "extraction \<Rightarrow> string" where
  "summary data =
     ''I have updated the database. Found: ''
       @ py_join '', '' (take 3 (data_get data ''companies'')) @ ''. ''
       @ (if data_get data ''people'' \<noteq> []
          then ''Key People: '' @ py_join '', '' (data_get data ''people'') @ ''.''
          else [])"

text \<open>
  The \<^verbatim>\<open>try\<close> block: fence markers are removed, the text is parsed, the graph is
  written, and the summary is returned. \<^verbatim>\<open>except Exception as e: return f"Error: {e}"\<close>
  turns any exception of the block into a returned string.
\<close>

definition clean_json :: "string \<Rightarrow> string" where
  "clean_json content = py_strip (py_replace ''```'' [] (py_replace ''```json'' [] content))"

definition write_and_summarize :: "'s env \<Rightarrow> string \<Rightarrow> 's \<Rightarrow> outcome \<times> 's" where
  "write_and_summarize env content s =
     (case json_loads env (clean_json content) of
        Inl e \<Rightarrow> (Returned (''Error: '' @ e), s)
      | Inr data \<Rightarrow>
          (case write_graph env data s of
             (Some e, s') \<Rightarrow> (Returned (''Error: '' @ e), s')
           | (None, s') \<Rightarrow> (Returned (summary data), s')))"

text \<open>
  \<^verbatim>\<open>research_and_learn\<close>. The search is inside a \<^verbatim>\<open>try\<close> of its own; the call of the
  language model stands between the two \<^verbatim>\<open>try\<close> blocks.
\<close>

definition search_query :: "string \<Rightarrow> string" where
  "search_query topic =
     (if \<not> py_in ''investor'' (py_lower topic) \<and> \<not> py_in ''ceo'' (py_lower topic)
      then topic @ '' investors CEO founders details'' else topic)"

definition research_and_learn :: "'s env \<Rightarrow> string \<Rightarrow> 's \<Rightarrow> outcome \<times> 's" where
  "research_and_learn env topic s =
     (if search_available env then
        (case search_invoke env (search_query topic) of
           Inl e \<Rightarrow> (Returned (''Search failed: '' @ e), s)
         | Inr raw_text \<Rightarrow>
             (case llm_invoke env (extraction_prompt raw_text) of
                Inl e \<Rightarrow> (Raised e, s)
              | Inr content \<Rightarrow> write_and_summarize env content s))
      else (Returned ''Search tool not available.'', s))"


text \<open>
  A store that also keeps the list of the statements it has carried out, in order.
\<close>

definition logged :: "(stmt \<Rightarrow> 's \<Rightarrow> string + 's) \<Rightarrow> stmt \<Rightarrow> 's \<times> stmt list
    \<Rightarrow> string + ('s \<times> stmt list)" where
  "logged query st sl =
     (case query st (fst sl) of
        Inl e \<Rightarrow> Inl e
      | Inr s' \<Rightarrow> Inr (s', snd sl @ [st]))"

definition with_log :: "'s env \<Rightarrow> ('s \<times> stmt list) env" where
  "with_log env =
     \<lparr>search_available = search_available env, search_invoke = search_invoke env,
      llm_invoke = llm_invoke env, json_loads = json_loads env,
      graph_query = logged (graph_query env)\<rparr>"

fun is_node_merge :: "stmt \<Rightarrow> bool" where
  "is_node_merge (MergeNode label name) = True"
| "is_node_merge st = False"


subsection \<open>Environments for the examples\<close>

text \<open>
  The extraction result of the specification's scenario: Acme Corp raised funding from
  Acorn Ventures; Jane Doe is CEO.
\<close>

definition acme_data :: extraction where
  "acme_data =
     \<lparr>entity_lists = [(''companies'', [''Acme Corp'', ''Acorn Ventures'']),
                      (''people'', [''Jane Doe''])],
      relationships =
        Some [[(''source'', ''Jane Doe''), (''target'', ''Acme Corp''), (''type'', ''LEADS'')],
              [(''source'', ''Acorn Ventures''), (''target'', ''Acme Corp''),
               (''type'', ''INVESTED_IN'')]]\<rparr>"

text \<open>
  An environment in which the search and the model answer, and the parser reads the
  model's answer as \<open>data\<close>, on the Neo4j model.
\<close>

definition answering_env :: "extraction \<Rightarrow> graph env" where
  "answering_env data =
     \<lparr>search_available = True, search_invoke = (\<lambda>q. Inr ''search results''),
      llm_invoke = (\<lambda>p. Inr ''```json{...}```''),
      json_loads = (\<lambda>text. if text = ''{...}'' then Inr data else Inl ''Expecting value''),
      graph_query = neo4j_query\<rparr>"



text \<open>A graph with the Organization nodes A and B and no edge.\<close>

definition two_nodes :: graph where
  "two_nodes =
     \<lparr>nodes = [\<lparr>labels = [''Organization''], node_id = ''A''\<rparr>,
               \<lparr>labels = [''Organization''], node_id = ''B''\<rparr>],
      edges = []\<rparr>"


text \<open>
  A name listed as a company and as a person, and as the source of an investment in a
  second company.
\<close>

definition investor_data :: extraction where
  "investor_data =
     \<lparr>entity_lists = [(''companies'', [''Bloomberg'', ''Acme Corp'']), (''people'', [''Bloomberg''])],
      relationships =
        Some [[(''source'', ''Bloomberg''), (''target'', ''Acme Corp''), (''type'', ''invested_in'')]]\<rparr>"

section \<open>Statements built by string interpolation (seed.py, api.py)\<close>

definition quote :: char where
  "quote = CHR 0x27"

definition backslash :: char where
  "backslash = CHR 0x5C"

text \<open>
  \<^verbatim>\<open>value.replace("'", "\\'")\<close>: seed.py applies it to the description, valuation,
  sector, status, founder and investor strings (not to the company name), api.py to the
  focus entity (\<^verbatim>\<open>safe_entity\<close>).
\<close>

definition escape_quotes :: "string \<Rightarrow> string" where
  "escape_quotes s = py_replace_char quote [backslash, quote] s"

text \<open>The character an escape sequence of a Cypher string literal stands for.\<close>

definition cypher_escape :: "char \<Rightarrow> char option" where
  "cypher_escape d =
     (if d = quote \<or> d = backslash \<or> d = CHR 0x22 then Some d
      else if d = CHR ''n'' then Some (CHR 0x0A)
      else if d = CHR ''r'' then Some (CHR 0x0D)
      else if d = CHR ''t'' then Some (CHR 0x09)
      else if d = CHR ''b'' then Some (CHR 0x08)
      else if d = CHR ''f'' then Some (CHR 0x0C)
      else None)"

text \<open>
  How Cypher reads a single-quoted string literal, from the character after the opening
  quote: a backslash takes the next character with it, and the first quote that no
  backslash has taken closes the literal. The result is the value of the literal and the
  statement text after the closing quote; \<open>None\<close> when the text ends inside the
  literal or an escape is not one of the above (\<^verbatim>\<open>\uXXXX\<close> is not followed).
\<close>

fun scan_literal :: "string \<Rightarrow> (string \<times> string) option" where
  "scan_literal [] = None"
| "scan_literal [c] = (if c = quote then Some ([], []) else None)"
| "scan_literal (c # d # ds) =
     (if c = quote then Some ([], d # ds)
      else if c = backslash then
        (case cypher_escape d of
           None \<Rightarrow> None
         | Some v \<Rightarrow> map_option (\<lambda>p. (v # fst p, snd p)) (scan_literal ds))
      else map_option (\<lambda>p. (c # fst p, snd p)) (scan_literal (d # ds)))"


subsection \<open>The read statement of the graph endpoint (api.py)\<close>

definition center_prefix :: string where
  "center_prefix = ''MATCH (n) WHERE toLower(n.id) = toLower('' @ [quote]"

definition center_suffix :: string where
  "center_suffix = [quote] @ '') RETURN n.id as id, labels(n)[0] as label LIMIT 1''"

text \<open>
  The text of the first statement of \<^verbatim>\<open>get_graph\<close> for a non-empty focus entity:
  \<^verbatim>\<open>safe_entity\<close> between the quotes of the template.
\<close>

definition center_query :: "string \<Rightarrow> string" where
  "center_query focus_entity = center_prefix @ escape_quotes focus_entity @ center_suffix"

definition get_graph_center_query :: "string \<Rightarrow> string" where
  "get_graph_center_query query = center_query (extract_entity_from_query query)"

subsection \<open>The competition edges (seed.py)\<close>






section \<open>Predicates of the statements about the graph\<close>

text \<open>
  The statements the research tool issues: any node merge, any edge merge, and the
  label statement with the label \<^verbatim>\<open>Investor\<close> only.
\<close>

fun issued :: "stmt \<Rightarrow> bool" where
  "issued (MergeNode label name) = True"
| "issued (SetLabel name label) = (label = ''Investor'')"
| "issued (MergeEdge source target rel_type) = True"



text \<open>
  The edges of a type that go from a node carrying the source \<^verbatim>\<open>id\<close> to a node carrying
  the target \<^verbatim>\<open>id\<close>.
\<close>

definition edges_between :: "string \<Rightarrow> string \<Rightarrow> string \<Rightarrow> graph \<Rightarrow> (nat \<times> string \<times> nat) list" where
  "edges_between source target rel_type g =
     filter (\<lambda>(a, ty, b). a < length (nodes g) \<and> b < length (nodes g) \<and>
                node_id (nodes g ! a) = source \<and> ty = rel_type \<and> node_id (nodes g ! b) = target)
       (edges g)"

text \<open>
  What one pass of the relationship loop adds to the log: nothing (an exception before
  the first statement), the label statement alone (an exception after it), the label
  statement and the \<^verbatim>\<open>INVESTED_IN\<close> edge of the same source, or one edge of another type.
\<close>

definition rel_block :: "stmt list \<Rightarrow> bool" where
  "rel_block xs =
     (xs = [] \<or> (\<exists>source. xs = [SetLabel source ''Investor'']) \<or>
      (\<exists>source target.
         xs = [SetLabel source ''Investor'', MergeEdge source target ''INVESTED_IN'']) \<or>
      (\<exists>source target rel_type.
         rel_type \<noteq> ''INVESTED_IN'' \<and> xs = [MergeEdge source target rel_type]))"

text \<open>
  In a log: no statement is a node merge, and every \<^verbatim>\<open>INVESTED_IN\<close> edge merge comes
  right after the \<^verbatim>\<open>Investor\<close> label statement of its source.
\<close>

definition rel_ok :: "stmt list \<Rightarrow> bool" where
  "rel_ok rs =
     ((\<forall>j<length rs. \<not> is_node_merge (rs ! j)) \<and>
      (\<forall>j source target. j < length rs \<and> rs ! j = MergeEdge source target ''INVESTED_IN'' \<longrightarrow>
         0 < j \<and> rs ! (j - 1) = SetLabel source ''Investor'') \<and>
      (\<forall>j<length rs. issued (rs ! j)))"

section \<open>Properties of the entity extractor\<close>

text \<open>\<open>py_in\<close> is the substring test.\<close>

lemma py_startswith_iff: "py_startswith s p \<longleftrightarrow> (\<exists>post. s = p @ post)"
  by (induction s p rule: py_startswith.induct) auto

lemma py_in_iff: "py_in sub s \<longleftrightarrow> (\<exists>pre post. s = pre @ sub @ post)"
proof (induction s)
  case Nil
  then show ?case by simp
next
  case (Cons c cs)
  show ?case
  proof
    assume "py_in sub (c # cs)"
    then consider "py_startswith (c # cs) sub" | "py_in sub cs" by auto
    then show "\<exists>pre post. c # cs = pre @ sub @ post"
    proof cases
      case 1
      then obtain post where "c # cs = sub @ post" by (auto simp: py_startswith_iff)
      then have "c # cs = [] @ sub @ post" by simp
      then show ?thesis by blast
    next
      case 2
      then obtain pre post where "cs = pre @ sub @ post" using Cons.IH by blast
      then have "c # cs = (c # pre) @ sub @ post" by simp
      then show ?thesis by blast
    qed
  next
    assume "\<exists>pre post. c # cs = pre @ sub @ post"
    then obtain pre post where eq: "c # cs = pre @ sub @ post" by blast
    show "py_in sub (c # cs)"
    proof (cases pre)
      case Nil
      then have "py_startswith (c # cs) sub" using eq by (simp add: py_startswith_iff)
      then show ?thesis by simp
    next
      case (Cons d ds)
      then have "cs = ds @ sub @ post" using eq by simp
      then show ?thesis using Cons.IH by auto
    qed
  qed
qed

lemma first_known_entity_Some:
  "first_known_entity es q = Some e \<Longrightarrow>
     \<exists>i<length es. es ! i = e \<and> py_in (py_lower e) q \<and> (\<forall>j<i. \<not> py_in (py_lower (es ! j)) q)"
proof (induction es)
  case Nil
  then show ?case by simp
next
  case (Cons a es)
  show ?case
  proof (cases "py_in (py_lower a) q")
    case True
    with Cons.prems have "a = e" by simp
    with True show ?thesis by (intro exI[of _ 0]) simp
  next
    case False
    with Cons.prems have "first_known_entity es q = Some e" by simp
    from Cons.IH[OF this] obtain i where i: "i < length es" "es ! i = e" "py_in (py_lower e) q"
      "\<forall>j<i. \<not> py_in (py_lower (es ! j)) q" by blast
    have "\<forall>j<Suc i. \<not> py_in (py_lower ((a # es) ! j)) q"
      using False i(4) by (auto simp: less_Suc_eq_0_disj)
    with i show ?thesis by (intro exI[of _ "Suc i"]) simp
  qed
qed

lemma first_known_entity_None:
  "first_known_entity es q = None \<Longrightarrow> e \<in> set es \<Longrightarrow> \<not> py_in (py_lower e) q"
  by (induction es) (auto split: if_splits)

lemma known_entities_nonempty: "e \<in> set known_entities \<Longrightarrow> e \<noteq> []"
  by (auto simp: known_entities_def)

lemma extract_entity_with_known:
  assumes "entity \<in> set known_entities"
    and "py_in (py_lower entity) (py_lower query)"
  shows "\<exists>i<length known_entities.
           extract_entity_with prefixes query = known_entities ! i \<and>
           py_in (py_lower (known_entities ! i)) (py_lower query) \<and>
           (\<forall>j<i. \<not> py_in (py_lower (known_entities ! j)) (py_lower query))"
proof -
  have "py_lower entity \<noteq> []"
    using known_entities_nonempty[OF assms(1)] by (simp add: py_lower_def)
  with assms(2) have "py_lower query \<noteq> []" by auto
  then have nonempty: "query \<noteq> []" by (auto simp: py_lower_def)
  obtain e where e: "first_known_entity known_entities (py_lower query) = Some e"
    using first_known_entity_None[OF _ assms(1), of "py_lower query"] assms(2)
    by (cases "first_known_entity known_entities (py_lower query)") auto
  then have "extract_entity_with prefixes query = e"
    using nonempty by (simp add: extract_entity_with_def)
  with first_known_entity_Some[OF e] show ?thesis by auto
qed

text \<open>
  Claim C9. A query that contains the name of a known entity, compared without case, is
  answered with an entry of the hard-coded list in its own capitalisation: the first
  entry, in list order, whose lowercased name occurs in the lowercased query. Neither
  prefix stripping nor title-casing takes part. Both copies of the function (api.py,
  app.py) agree.
\<close>

theorem known_entity_first_match:
  assumes "entity \<in> set known_entities"
    and "py_in (py_lower entity) (py_lower query)"
  shows "\<exists>i<length known_entities.
           extract_entity_from_query query = known_entities ! i \<and>
           extract_entity_from_query_app query = known_entities ! i \<and>
           py_in (py_lower (known_entities ! i)) (py_lower query) \<and>
           (\<forall>j<i. \<not> py_in (py_lower (known_entities ! j)) (py_lower query))"
proof -
  from extract_entity_with_known[OF assms, of api_prefixes] obtain i where
    i: "i < length known_entities" "extract_entity_with api_prefixes query = known_entities ! i"
       "py_in (py_lower (known_entities ! i)) (py_lower query)"
       "\<forall>j<i. \<not> py_in (py_lower (known_entities ! j)) (py_lower query)" by blast
  from extract_entity_with_known[OF assms, of app_prefixes] obtain k where
    k: "k < length known_entities" "extract_entity_with app_prefixes query = known_entities ! k"
       "py_in (py_lower (known_entities ! k)) (py_lower query)"
       "\<forall>j<k. \<not> py_in (py_lower (known_entities ! j)) (py_lower query)" by blast
  have "i = k" using i(3,4) k(3,4) by (meson linorder_neqE_nat)
  with i k show ?thesis
    unfolding extract_entity_from_query_def extract_entity_from_query_app_def by blast
qed

text \<open>The theorem at the query \<open>Research OPENAI vs google\<close>, which also names Google.\<close>

theorem known_entity_first_match_witness:
  "''OpenAI'' \<in> set known_entities \<and>
   py_in (py_lower ''OpenAI'') (py_lower ''Research OPENAI vs google'') \<and>
   extract_entity_from_query ''Research OPENAI vs google'' = ''OpenAI'' \<and>
   extract_entity_from_query_app ''Research OPENAI vs google'' = ''OpenAI''"
proof -
  let ?q = "''Research OPENAI vs google''"
  have h1: "''OpenAI'' \<in> set known_entities" by (simp add: known_entities_def)
  have h2: "py_in (py_lower ''OpenAI'') (py_lower ?q)" by code_simp
  from known_entity_first_match[OF h1 h2] obtain i where
    i: "extract_entity_from_query ?q = known_entities ! i"
       "extract_entity_from_query_app ?q = known_entities ! i"
       "\<forall>j<i. \<not> py_in (py_lower (known_entities ! j)) (py_lower ?q)" by blast
  have g: "known_entities ! 0 = ''OpenAI''" by (simp add: known_entities_def)
  have "\<not> 0 < i" using i(3) h2 g by auto
  then have "i = 0" by simp
  with i g h1 h2 show ?thesis by simp
qed

text \<open>
  Claim C8 says that \<open>"  openai research  "\<close> is normalised to \<open>"Openai Research"\<close>.
  The mention contains the known entity \<open>openai\<close>, so the loop over the known entities
  returns before any trimming or title-casing.
\<close>

theorem openai_research_counterexample:
  "extract_entity_from_query ''  openai research  '' \<noteq> ''Openai Research'' \<and>
   extract_entity_from_query_app ''  openai research  '' \<noteq> ''Openai Research''"
  by code_simp

text \<open>
  Claim C8, amended. The mention \<open>"  openai research  "\<close> is mapped to the known entity
  \<open>"OpenAI"\<close>. Trimming followed by naive title-casing, which gives
  \<open>"Openai Research"\<close> on this text, is what a mention without a known entity gets:
  \<open>"  acme research  "\<close> becomes \<open>"Acme Research"\<close>.
\<close>

theorem openai_research_known_entity:
  "extract_entity_from_query ''  openai research  '' = ''OpenAI'' \<and>
   extract_entity_from_query_app ''  openai research  '' = ''OpenAI'' \<and>
   py_title (py_strip ''  openai research  '') = ''Openai Research'' \<and>
   extract_entity_from_query ''  acme research  '' = ''Acme Research'' \<and>
   extract_entity_from_query_app ''  acme research  '' = ''Acme Research''"
  by code_simp

section \<open>Properties of the action emitter\<close>

text \<open>Every character of a JSON encoding is printable ASCII.\<close>

lemma hex_digit_printable: "printable (hex_digit k)"
proof -
  have "list_all printable ''0123456789abcdef''" by (simp add: printable_def)
  moreover have "k mod 16 < length ''0123456789abcdef''" by simp
  ultimately show ?thesis unfolding hex_digit_def list_all_length by blast
qed

lemma json_escape_char_printable: "d \<in> set (json_escape_char c) \<Longrightarrow> printable d"
proof -
  have p: "printable (CHR 0x5C)" "printable (CHR 0x22)" "printable (CHR ''n'')"
    "printable (CHR ''r'')" "printable (CHR ''t'')" "printable (CHR ''b'')"
    "printable (CHR ''f'')" "printable (CHR ''u'')" "printable (CHR ''0'')"
    by (simp_all add: printable_def)
  assume "d \<in> set (json_escape_char c)"
  then show ?thesis
    unfolding json_escape_char_def Let_def
    using p hex_digit_printable
    by (auto simp: printable_def split: if_splits)
qed

lemma json_string_printable: "d \<in> set (json_string s) \<Longrightarrow> printable d"
proof -
  assume "d \<in> set (json_string s)"
  then consider "d = CHR 0x22" | c where "d \<in> set (json_escape_char c)"
    by (auto simp: json_string_def)
  then show ?thesis
  proof cases
    case 1 then show ?thesis by (simp add: printable_def)
  next
    case 2 then show ?thesis by (rule json_escape_char_printable)
  qed
qed

lemma show_nat_printable: "d \<in> set (show_nat n) \<Longrightarrow> printable d"
proof (induction n arbitrary: d rule: show_nat.induct)
  case (1 n)
  show ?case
  proof (cases "n < 10")
    case True
    then have "d = char_of (48 + n)" using "1.prems" by (subst (asm) show_nat.simps) simp
    then show ?thesis using True by (simp add: printable_def)
  next
    case False
    then have "d \<in> set (show_nat (n div 10)) \<or> d = char_of (48 + n mod 10)"
      using "1.prems" by (subst (asm) show_nat.simps) auto
    then show ?thesis
    proof
      assume "d \<in> set (show_nat (n div 10))"
      then show ?thesis using "1.IH"[OF False] by simp
    next
      assume "d = char_of (48 + n mod 10)"
      moreover have "n mod 10 < 10" by simp
      ultimately show ?thesis by (simp add: printable_def)
    qed
  qed
qed

lemma show_int_printable: "d \<in> set (show_int i) \<Longrightarrow> printable d"
proof -
  assume "d \<in> set (show_int i)"
  then consider "d = CHR ''-''" | n where "d \<in> set (show_nat n)"
    by (auto simp: show_int_def split: if_splits)
  then show ?thesis
  proof cases
    case 1 then show ?thesis by (simp add: printable_def)
  next
    case 2 then show ?thesis by (rule show_nat_printable)
  qed
qed

lemma py_join_set: "d \<in> set (py_join sep xs) \<Longrightarrow> d \<in> set sep \<or> (\<exists>x\<in>set xs. d \<in> set x)"
  by (induction sep xs rule: py_join.induct) auto

lemma json_dumps_printable: "d \<in> set (json_dumps v) \<Longrightarrow> printable d"
proof (induction v arbitrary: d)
  case JNull
  then show ?case by (auto simp: printable_def)
next
  case (JBool b)
  then show ?case by (auto simp: printable_def split: if_splits)
next
  case (JInt i)
  then show ?case by (simp add: show_int_printable)
next
  case (JStr s)
  then show ?case by (simp add: json_string_printable)
next
  case (JList xs)
  from JList.prems have "d = CHR ''['' \<or> d = CHR '']'' \<or> d \<in> set (py_join '', '' (map json_dumps xs))"
    by auto
  then show ?case using JList.IH by (auto simp: printable_def dest!: py_join_set)
next
  case (JObj kvs)
  from JObj.prems have "d = CHR ''{'' \<or> d = CHR ''}'' \<or>
      d \<in> set (py_join '', '' (map (\<lambda>kv. json_string (fst kv) @ '': '' @ json_dumps (snd kv)) kvs))"
    by auto
  then consider "d = CHR ''{''" | "d = CHR ''}''" | "d \<in> set '', ''"
    | kv where "kv \<in> set kvs" "d \<in> set (json_string (fst kv) @ '': '' @ json_dumps (snd kv))"
    by (auto dest!: py_join_set)
  then show ?case
  proof cases
    case 1 then show ?thesis by (simp add: printable_def)
  next
    case 2 then show ?thesis by (simp add: printable_def)
  next
    case 3 then show ?thesis by (auto simp: printable_def)
  next
    case 4
    then consider "d \<in> set (json_string (fst kv))" | "d \<in> set '': ''"
      | "d \<in> set (json_dumps (snd kv))" by auto
    then show ?thesis
    proof cases
      case 1 then show ?thesis by (rule json_string_printable)
    next
      case 2 then show ?thesis by (auto simp: printable_def)
    next
      case 3
      show ?thesis
        using JObj.IH[of kv "snd kv" d] 4(1) 3 by (cases kv) auto
    qed
  qed
qed

lemma json_dumps_no_newline: "CHR 0x0A \<notin> set (json_dumps v)"
proof
  assume "CHR 0x0A \<in> set (json_dumps v)"
  then have "printable (CHR 0x0A)" by (rule json_dumps_printable)
  then show False by (simp add: printable_def)
qed

lemma py_in_set: "py_in sub s \<Longrightarrow> set sub \<subseteq> set s"
  by (auto simp: py_in_iff)

text \<open>
  Claim C6 says that the marker sequence cannot occur inside the JSON encoding of the
  payload. The encoder escapes none of the characters of \<open><<<ACTION:\<close> and
  \<open>:ACTION>>>\<close>, so a text node whose content holds the end marker is emitted with
  that marker inside its encoding.
\<close>

theorem action_marker_counterexample:
  "create_text_node ''Note'' ''see :ACTION>>> here'' =
     action_record (JObj [(''type'', JStr ''create_node''),
        (''data'', JObj [(''title'', JStr ''Note''), (''node_type'', JStr ''text''),
                         (''data'', JObj [(''content'', JStr ''see :ACTION>>> here'')])])]) \<and>
   py_in action_end (json_dumps (JObj [(''type'', JStr ''create_node''),
        (''data'', JObj [(''title'', JStr ''Note''), (''node_type'', JStr ''text''),
                         (''data'', JObj [(''content'', JStr ''see :ACTION>>> here'')])])]))"
  by code_simp

text \<open>
  Claim C6, amended. For every action type and payload, the record is a line feed, the
  start marker, the JSON encoding of \<open>{type, data}\<close>, the end marker and a line feed.
  The encoding never holds a raw line feed, so the start marker with the line feed
  before it and the end marker with the line feed after it cannot occur inside the
  encoding. The bare markers are not escaped and occur in it when a payload string
  holds them.
\<close>

theorem emit_action_framing:
  "emit_action action_type data =
     newline @ action_start @ json_dumps (JObj [(''type'', JStr action_type), (''data'', data)])
       @ action_end @ newline \<and>
   CHR 0x0A \<notin> set (json_dumps (JObj [(''type'', JStr action_type), (''data'', data)])) \<and>
   \<not> py_in (newline @ action_start)
         (json_dumps (JObj [(''type'', JStr action_type), (''data'', data)])) \<and>
   \<not> py_in (action_end @ newline)
         (json_dumps (JObj [(''type'', JStr action_type), (''data'', data)]))"
proof -
  let ?enc = "json_dumps (JObj [(''type'', JStr action_type), (''data'', data)])"
  have nl: "CHR 0x0A \<notin> set ?enc" by (rule json_dumps_no_newline)
  have "\<not> py_in (newline @ action_start) ?enc"
  proof
    assume "py_in (newline @ action_start) ?enc"
    from py_in_set[OF this] have "CHR 0x0A \<in> set ?enc" by (simp add: newline_def)
    with nl show False by contradiction
  qed
  moreover have "\<not> py_in (action_end @ newline) ?enc"
  proof
    assume "py_in (action_end @ newline) ?enc"
    from py_in_set[OF this] have "CHR 0x0A \<in> set ?enc" by (simp add: newline_def)
    with nl show False by contradiction
  qed
  moreover have "emit_action action_type data = newline @ action_start @ ?enc @ action_end @ newline"
    by (simp add: emit_action_def)
  ultimately show ?thesis using nl by blast
qed

text \<open>The two loops of \<open>analyze_portfolio\<close> as a map and a concatenation.\<close>

lemma foldl_snoc_map: "foldl (\<lambda>acc x. acc @ [f x]) acc xs = acc @ map f xs"
  by (induction xs arbitrary: acc) auto

lemma foldl_append_concat: "foldl (\<lambda>acc x. acc @ g x) acc xs = acc @ concat (map g xs)"
  by (induction xs arbitrary: acc) auto

lemma analyze_portfolio_eq:
  "analyze_portfolio tickers =
     concat (map (\<lambda>t. action_record (portfolio_action t))
               (take 6 (map (\<lambda>t. py_upper (py_strip t)) (py_split_comma tickers))))
     @ newline @ ''Created portfolio view for: ''
     @ py_join '', '' (map (\<lambda>t. py_upper (py_strip t)) (py_split_comma tickers))"
proof -
  have r: "foldl (\<lambda>result action.
              result @ newline @ action_start @ json_dumps action @ action_end @ newline) [] as
           = concat (map action_record as)" for as
    using foldl_append_concat[of "\<lambda>a. newline @ action_start @ json_dumps a @ action_end @ newline" "[]" as]
    by (simp add: action_record_def[abs_def])
  show ?thesis
    unfolding analyze_portfolio_def Let_def r foldl_snoc_map
    by (simp add: comp_def)
qed

text \<open>Splitting at commas yields one field per comma plus one, and joining gives the text back.\<close>

lemma split_comma_from_length:
  "length (split_comma_from field s) = Suc (count_list s (CHR '',''))"
  by (induction field s rule: split_comma_from.induct) auto

lemma split_comma_from_join:
  "py_join '','' (split_comma_from field s) = field @ s"
proof (induction field s rule: split_comma_from.induct)
  case (1 field)
  then show ?case by simp
next
  case (2 field c cs)
  show ?case
  proof (cases "c = CHR '',''")
    case True
    obtain y ys where "split_comma_from [] cs = y # ys"
      by (cases "split_comma_from [] cs") (use split_comma_from_length[of "[]" cs] in auto)
    then show ?thesis using 2 True by auto
  next
    case False
    then show ?thesis using 2 by simp
  qed
qed

text \<open>
  The fields of a split text hold no comma and only characters of the text; trimming
  and the uppercase bring in no \<open><\<close>, and neither does the JSON encoding of a string.
\<close>

lemma occurrences_skip:
  "CHR ''<'' \<notin> set s \<Longrightarrow> occurrences ''<<<ACTION:'' (s @ r) = occurrences ''<<<ACTION:'' r"
  by (induction s) auto

lemma occurrences_marker:
  "occurrences ''<<<ACTION:'' (''<<<ACTION:'' @ r) = Suc (occurrences ''<<<ACTION:'' r)"
  using occurrences_skip[of "''ACTION:''" r] by simp

lemma hex_digit_not_lt: "hex_digit k \<noteq> CHR ''<''"
proof -
  have "list_all (\<lambda>c. c \<noteq> CHR ''<'') ''0123456789abcdef''" by simp
  moreover have "k mod 16 < length ''0123456789abcdef''" by simp
  ultimately show ?thesis unfolding hex_digit_def list_all_length by blast
qed

lemma json_escape_char_lt:
  assumes "c \<noteq> CHR ''<''"
  shows "CHR ''<'' \<notin> set (json_escape_char c)"
proof
  assume "CHR ''<'' \<in> set (json_escape_char c)"
  then consider "CHR ''<'' = c" | "CHR ''<'' = hex_digit (of_char c div 16)"
    | "CHR ''<'' = hex_digit (of_char c)"
    unfolding json_escape_char_def Let_def by (auto split: if_splits)
  then show False
    using assms hex_digit_not_lt[of "of_char c div 16"] hex_digit_not_lt[of "of_char c"]
    by cases simp_all
qed

lemma json_string_lt:
  assumes "CHR ''<'' \<notin> set s"
  shows "CHR ''<'' \<notin> set (json_string s)"
proof
  assume "CHR ''<'' \<in> set (json_string s)"
  then obtain c where "c \<in> set s" "CHR ''<'' \<in> set (json_escape_char c)"
    by (auto simp: json_string_def)
  with assms json_escape_char_lt[of c] show False by blast
qed

lemma char_of_not_lt:
  fixes n :: nat
  assumes "64 < n" "n < 256"
  shows "(char_of n :: char) \<noteq> CHR ''<''"
proof
  assume "(char_of n :: char) = CHR ''<''"
  then have "(of_char (char_of n :: char) :: nat) = of_char (CHR ''<'')" by simp
  then have "n mod 256 = 60" by simp
  with assms show False by simp
qed

lemma py_upper_char_lt: "c \<noteq> CHR ''<'' \<Longrightarrow> py_upper_char c \<noteq> CHR ''<''"
proof -
  assume c: "c \<noteq> CHR ''<''"
  have b: "(of_char c :: nat) < 256" by simp
  show ?thesis
  proof (cases "py_upper_char c = c")
    case True
    with c show ?thesis by simp
  next
    case False
    then have u: "py_upper_char c = char_of ((of_char c :: nat) - 32)" and "97 \<le> (of_char c :: nat)"
      by (auto simp: py_upper_char_def Let_def split: if_splits)
    then have "64 < (of_char c :: nat) - 32" "(of_char c :: nat) - 32 < 256" using b by arith+
    then show ?thesis unfolding u by (rule char_of_not_lt)
  qed
qed

lemma py_upper_chars_lt: "c \<noteq> CHR ''<'' \<Longrightarrow> CHR ''<'' \<notin> set (py_upper_chars c)"
  using py_upper_char_lt[of c] by (simp add: py_upper_chars_def)

lemma py_upper_lt:
  assumes "CHR ''<'' \<notin> set s"
  shows "CHR ''<'' \<notin> set (py_upper s)"
proof
  assume "CHR ''<'' \<in> set (py_upper s)"
  then obtain c where "c \<in> set s" "CHR ''<'' \<in> set (py_upper_chars c)"
    by (auto simp: py_upper_def)
  with assms py_upper_chars_lt[of c] show False by blast
qed

lemma py_strip_subset: "set (py_strip s) \<subseteq> set s"
proof -
  have "set (py_strip s) \<subseteq> set (dropWhile py_isspace s)"
    unfolding py_strip_def using set_dropWhileD by fastforce
  also have "\<dots> \<subseteq> set s" using set_dropWhileD by fastforce
  finally show ?thesis .
qed

lemma split_comma_from_subset:
  "f \<in> set (split_comma_from field s) \<Longrightarrow> set f \<subseteq> set field \<union> set s"
  by (induction field s rule: split_comma_from.induct) (auto split: if_splits)

lemma split_comma_from_no_comma:
  "CHR '','' \<notin> set field \<Longrightarrow> f \<in> set (split_comma_from field s) \<Longrightarrow> CHR '','' \<notin> set f"
  by (induction field s rule: split_comma_from.induct) (auto split: if_splits)

lemma py_join_lt:
  "CHR ''<'' \<notin> set sep \<Longrightarrow> \<forall>x\<in>set xs. CHR ''<'' \<notin> set x \<Longrightarrow> CHR ''<'' \<notin> set (py_join sep xs)"
  by (induction sep xs rule: py_join.induct) auto

lemma occurrences_records:
  assumes "\<forall>x\<in>set xs. CHR ''<'' \<notin> set (enc x)"
  shows "occurrences ''<<<ACTION:''
           (concat (map (\<lambda>x. [CHR 0x0A] @ ''<<<ACTION:'' @ enc x @ '':ACTION>>>'' @ [CHR 0x0A]) xs) @ r)
         = length xs + occurrences ''<<<ACTION:'' r"
  using assms
proof (induction xs)
  case Nil
  then show ?case by simp
next
  case (Cons x xs)
  let ?m = "''<<<ACTION:''"
  let ?rest = "concat (map (\<lambda>x. [CHR 0x0A] @ ?m @ enc x @ '':ACTION>>>'' @ [CHR 0x0A]) xs) @ r"
  have x: "CHR ''<'' \<notin> set (enc x @ '':ACTION>>>'' @ [CHR 0x0A])" using Cons.prems by simp
  have "occurrences ?m (concat (map (\<lambda>x. [CHR 0x0A] @ ?m @ enc x @ '':ACTION>>>'' @ [CHR 0x0A]) (x # xs)) @ r)
      = occurrences ?m ([CHR 0x0A] @ (?m @ ((enc x @ '':ACTION>>>'' @ [CHR 0x0A]) @ ?rest)))"
    by simp
  also have "\<dots> = occurrences ?m (?m @ ((enc x @ '':ACTION>>>'' @ [CHR 0x0A]) @ ?rest))"
    by (rule occurrences_skip) simp
  also have "\<dots> = Suc (occurrences ?m ((enc x @ '':ACTION>>>'' @ [CHR 0x0A]) @ ?rest))"
    by (rule occurrences_marker)
  also have "\<dots> = Suc (occurrences ?m ?rest)"
    using occurrences_skip[OF x] by simp
  also have "\<dots> = length (x # xs) + occurrences ?m r"
    using Cons by simp
  finally show ?case .
qed

text \<open>
  Claim C10. For every ticker string whose uppercase stays within U+00FF, with
  \<open>ticker_list\<close> the comma-separated fields (one more than there are commas, none
  holding a comma, and giving the string back when joined), each trimmed and
  uppercased: the output is, for each of the first six tickers of \<open>ticker_list\<close> in
  order, a line feed, the start marker, the JSON encoding of the \<open>create_chart\<close>
  action of that ticker (title \<open>ticker Chart\<close>, a line chart over one month), the end
  marker and a line feed; then a line feed and the sentence that lists the whole of
  \<open>ticker_list\<close>. There are \<open>min 6 (length ticker_list)\<close> such records, and when no
  ticker holds \<open><\<close> the start marker occurs in the output that many times.
\<close>

theorem analyze_portfolio_records:
  assumes "upper_in_type tickers"
  shows "analyze_portfolio tickers =
       concat (map (\<lambda>ticker. [CHR 0x0A] @ ''<<<ACTION:''
                     @ json_dumps (JObj [(''type'', JStr ''create_chart''),
                         (''data'', JObj [(''title'', JStr (ticker @ '' Chart'')),
                                          (''node_type'', JStr ''chart''),
                                          (''chart'', JObj [(''ticker'', JStr ticker),
                                                            (''chartType'', JStr ''line''),
                                                            (''timeframe'', JStr ''1M'')])])])
                     @ '':ACTION>>>'' @ [CHR 0x0A])
                 (take 6 (map (\<lambda>t. py_upper (py_strip t)) (py_split_comma tickers))))
       @ [CHR 0x0A] @ ''Created portfolio view for: ''
       @ py_join '', '' (map (\<lambda>t. py_upper (py_strip t)) (py_split_comma tickers)) \<and>
     length (take 6 (map (\<lambda>t. py_upper (py_strip t)) (py_split_comma tickers))) =
       min 6 (Suc (count_list tickers (CHR '',''))) \<and>
     py_join '','' (py_split_comma tickers) = tickers \<and>
     (\<forall>field \<in> set (py_split_comma tickers). CHR '','' \<notin> set field) \<and>
     (CHR ''<'' \<notin> set tickers \<longrightarrow>
        occurrences ''<<<ACTION:'' (analyze_portfolio tickers) =
          min 6 (Suc (count_list tickers (CHR '',''))))"
proof -
  let ?ticker_list = "map (\<lambda>t. py_upper (py_strip t)) (py_split_comma tickers)"
  let ?enc = "\<lambda>ticker. json_dumps (JObj [(''type'', JStr ''create_chart''),
                         (''data'', JObj [(''title'', JStr (ticker @ '' Chart'')),
                                          (''node_type'', JStr ''chart''),
                                          (''chart'', JObj [(''ticker'', JStr ticker),
                                                            (''chartType'', JStr ''line''),
                                                            (''timeframe'', JStr ''1M'')])])])"
  let ?entry = "\<lambda>ticker. [CHR 0x0A] @ ''<<<ACTION:'' @ ?enc ticker @ '':ACTION>>>'' @ [CHR 0x0A]"
  let ?tail = "[CHR 0x0A] @ ''Created portfolio view for: '' @ py_join '', '' ?ticker_list"
  have rec: "action_record (portfolio_action ticker) = ?entry ticker" for ticker
    by (simp add: action_record_def portfolio_action_def newline_def action_start_def
          action_end_def CREATE_CHART_def)
  have out: "analyze_portfolio tickers = concat (map ?entry (take 6 ?ticker_list)) @ ?tail"
    unfolding analyze_portfolio_eq rec by (simp add: newline_def)
  have len: "length (take 6 ?ticker_list) = min 6 (Suc (count_list tickers (CHR '','')))"
    by (simp add: py_split_comma_def split_comma_from_length min.commute)
  have join: "py_join '','' (py_split_comma tickers) = tickers"
    by (simp add: py_split_comma_def split_comma_from_join)
  have fields: "\<forall>field \<in> set (py_split_comma tickers). CHR '','' \<notin> set field"
    using split_comma_from_no_comma[of "[]" _ tickers] by (simp add: py_split_comma_def)
  have markers: "CHR ''<'' \<notin> set tickers \<longrightarrow>
        occurrences ''<<<ACTION:'' (analyze_portfolio tickers) =
          min 6 (Suc (count_list tickers (CHR '','')))"
  proof
    assume lt: "CHR ''<'' \<notin> set tickers"
    have t: "CHR ''<'' \<notin> set ticker" if "ticker \<in> set ?ticker_list" for ticker
    proof -
      from that obtain field where f: "field \<in> set (py_split_comma tickers)"
        and u: "ticker = py_upper (py_strip field)" by auto
      from f have "set field \<subseteq> set tickers"
        using split_comma_from_subset[of field "[]" tickers] by (simp add: py_split_comma_def)
      with lt py_strip_subset[of field] have "CHR ''<'' \<notin> set (py_strip field)" by blast
      then show ?thesis unfolding u by (rule py_upper_lt)
    qed
    have e: "CHR ''<'' \<notin> set (?enc ticker)" if "ticker \<in> set ?ticker_list" for ticker
    proof -
      from t[OF that] have "CHR ''<'' \<notin> set (json_string ticker)"
        "CHR ''<'' \<notin> set (json_string (ticker @ '' Chart''))"
        by (simp_all add: json_string_lt)
      moreover have "CHR ''<'' \<notin> set (json_string k)"
        if "k \<in> {''type'', ''create_chart'', ''data'', ''title'', ''node_type'', ''chart'',
                  ''ticker'', ''chartType'', ''line'', ''timeframe'', ''1M''}" for k
        using that by (auto intro!: json_string_lt)
      ultimately show ?thesis by simp
    qed
    have "\<forall>ticker \<in> set (take 6 ?ticker_list). CHR ''<'' \<notin> set (?enc ticker)"
      using e in_set_takeD by fast
    from occurrences_records[of "take 6 ?ticker_list" ?enc ?tail, OF this]
    have "occurrences ''<<<ACTION:'' (analyze_portfolio tickers) =
        length (take 6 ?ticker_list) + occurrences ''<<<ACTION:'' ?tail"
      unfolding out .
    moreover have "CHR ''<'' \<notin> set ?tail"
      using py_join_lt[of "'', ''" ?ticker_list] t by simp
    then have "occurrences ''<<<ACTION:'' ?tail = 0"
      using occurrences_skip[of ?tail "[]"] by simp
    ultimately show "occurrences ''<<<ACTION:'' (analyze_portfolio tickers) =
          min 6 (Suc (count_list tickers (CHR '','')))" using len by simp
  qed
  from out len join fields markers show ?thesis by (intro conjI)
qed

text \<open>
  Seven tickers, some with blanks around them: six chart records, for the first six
  tickers trimmed and in capitals, six start markers in the output, and a sentence that
  names all seven.
\<close>

theorem analyze_portfolio_records_witness:
  "upper_in_type ''aapl, msft,googl,amzn,tsla,meta, nvda'' \<and>
   analyze_portfolio ''aapl, msft,googl,amzn,tsla,meta, nvda'' =
     concat (map (\<lambda>ticker. [CHR 0x0A] @ ''<<<ACTION:''
                     @ json_dumps (JObj [(''type'', JStr ''create_chart''),
                         (''data'', JObj [(''title'', JStr (ticker @ '' Chart'')),
                                          (''node_type'', JStr ''chart''),
                                          (''chart'', JObj [(''ticker'', JStr ticker),
                                                            (''chartType'', JStr ''line''),
                                                            (''timeframe'', JStr ''1M'')])])])
                     @ '':ACTION>>>'' @ [CHR 0x0A])
               [''AAPL'', ''MSFT'', ''GOOGL'', ''AMZN'', ''TSLA'', ''META''])
     @ [CHR 0x0A] @ ''Created portfolio view for: AAPL, MSFT, GOOGL, AMZN, TSLA, META, NVDA'' \<and>
   occurrences ''<<<ACTION:'' (analyze_portfolio ''aapl, msft,googl,amzn,tsla,meta, nvda'') = 6"
proof -
  let ?t = "''aapl, msft,googl,amzn,tsla,meta, nvda''"
  have h: "upper_in_type ?t" by code_simp
  have tl: "map (\<lambda>t. py_upper (py_strip t)) (py_split_comma ?t) =
      [''AAPL'', ''MSFT'', ''GOOGL'', ''AMZN'', ''TSLA'', ''META'', ''NVDA'']"
    by code_simp
  have lt: "CHR ''<'' \<notin> set ?t" by simp
  have n: "count_list ?t (CHR '','') = 6" by simp
  note A = analyze_portfolio_records[OF h]
  have 1: "analyze_portfolio ?t =
     concat (map (\<lambda>ticker. [CHR 0x0A] @ ''<<<ACTION:''
                     @ json_dumps (JObj [(''type'', JStr ''create_chart''),
                         (''data'', JObj [(''title'', JStr (ticker @ '' Chart'')),
                                          (''node_type'', JStr ''chart''),
                                          (''chart'', JObj [(''ticker'', JStr ticker),
                                                            (''chartType'', JStr ''line''),
                                                            (''timeframe'', JStr ''1M'')])])])
                     @ '':ACTION>>>'' @ [CHR 0x0A])
               [''AAPL'', ''MSFT'', ''GOOGL'', ''AMZN'', ''TSLA'', ''META''])
     @ [CHR 0x0A] @ ''Created portfolio view for: AAPL, MSFT, GOOGL, AMZN, TSLA, META, NVDA''"
    using A[THEN conjunct1] unfolding tl by simp
  have 2: "occurrences ''<<<ACTION:'' (analyze_portfolio ?t) = 6"
    using A[THEN conjunct2, THEN conjunct2, THEN conjunct2, THEN conjunct2, rule_format, OF lt]
    unfolding n by simp
  from h 1 2 show ?thesis by (intro conjI)
qed

section \<open>Properties of the research tool\<close>











section \<open>Properties of the graph store\<close>

text \<open>The edge statement adds the missing edges between the matched nodes and nothing else.\<close>

lemma matching_iff:
  "a \<in> set (matching name g) \<longleftrightarrow> a < length (nodes g) \<and> node_id (nodes g ! a) = name"
  by (auto simp: matching_def)

lemma merge_rel_set: "set (merge_rel e es) = insert e (set es)"
  by (auto simp: merge_rel_def)

lemma merge_rel_distinct: "distinct es \<Longrightarrow> distinct (merge_rel e es)"
  by (simp add: merge_rel_def)

lemma merge_rel_present: "e \<in> set es \<Longrightarrow> merge_rel e es = es"
  by (simp add: merge_rel_def)

lemma merge_rows_set:
  "set (foldl (\<lambda>es row. merge_rel (fst row, ty, snd row) es) es rows) =
     set es \<union> (\<lambda>row. (fst row, ty, snd row)) ` set rows"
  by (induction rows arbitrary: es) (auto simp: merge_rel_set)

lemma merge_rows_distinct:
  "distinct es \<Longrightarrow> distinct (foldl (\<lambda>es row. merge_rel (fst row, ty, snd row) es) es rows)"
  by (induction rows arbitrary: es) (auto simp: merge_rel_distinct)

lemma merge_rows_present:
  "(\<lambda>row. (fst row, ty, snd row)) ` set rows \<subseteq> set es \<Longrightarrow>
     foldl (\<lambda>es row. merge_rel (fst row, ty, snd row) es) es rows = es"
  by (induction rows arbitrary: es) (auto simp: merge_rel_present)

lemma merge_edge_nodes: "nodes (merge_edge source target rel_type g) = nodes g"
  by (simp add: merge_edge_def)

lemma merge_edge_matching:
  "matching name (merge_edge source target rel_type g) = matching name g"
  by (simp add: matching_def merge_edge_nodes)

lemma merge_edge_edges_set:
  "set (edges (merge_edge source target rel_type g)) =
     set (edges g) \<union> {(a, rel_type, b) | a b.
        a \<in> set (matching source g) \<and> b \<in> set (matching target g)}"
  by (auto simp: merge_edge_def merge_rows_set image_iff)

lemma merge_edge_distinct:
  "distinct (edges g) \<Longrightarrow> distinct (edges (merge_edge source target rel_type g))"
  by (simp add: merge_edge_def merge_rows_distinct)

lemma merge_edge_twice:
  "merge_edge source target rel_type (merge_edge source target rel_type g) =
     merge_edge source target rel_type g"
proof -
  let ?g = "merge_edge source target rel_type g"
  let ?rows = "List.product (matching source g) (matching target g)"
  have "(\<lambda>row. (fst row, rel_type, snd row)) ` set ?rows \<subseteq> set (edges ?g)"
    by (auto simp: merge_edge_edges_set)
  then have "foldl (\<lambda>es row. merge_rel (fst row, rel_type, snd row) es) (edges ?g) ?rows = edges ?g"
    by (rule merge_rows_present)
  then show ?thesis
    by (simp add: merge_edge_def[of source target rel_type ?g] merge_edge_matching)
qed

text \<open>
  The edge statement appends, in the order of the rows, the edges that were missing; the
  edges between the matched nodes are then as many as the rows.
\<close>

lemma merge_rows_append:
  "distinct rows \<Longrightarrow>
     foldl (\<lambda>es row. merge_rel (fst row, ty, snd row) es) es rows =
       es @ filter (\<lambda>e. e \<notin> set es) (map (\<lambda>row. (fst row, ty, snd row)) rows)"
proof (induction rows arbitrary: es)
  case Nil
  then show ?case by simp
next
  case (Cons row rows)
  let ?mk = "\<lambda>row. (fst row, ty, snd row)"
  from Cons.prems have d: "distinct rows" and n: "row \<notin> set rows" by simp_all
  have inj: "?mk r = ?mk row \<Longrightarrow> r = row" for r :: "nat \<times> nat" by (simp add: prod_eq_iff)
  show ?case
  proof (cases "?mk row \<in> set es")
    case True
    then show ?thesis using Cons.IH[OF d, of es] by (simp add: merge_rel_def)
  next
    case False
    have "filter (\<lambda>e. e \<notin> set (es @ [?mk row])) (map ?mk rows) =
          filter (\<lambda>e. e \<notin> set es) (map ?mk rows)"
    proof (rule filter_cong[OF refl])
      fix e assume "e \<in> set (map ?mk rows)"
      then obtain r where "r \<in> set rows" "e = ?mk r" by auto
      with n inj[of r] have "e \<noteq> ?mk row" by auto
      then show "(e \<notin> set (es @ [?mk row])) = (e \<notin> set es)" by simp
    qed
    then show ?thesis using False Cons.IH[OF d, of "es @ [?mk row]"] by (simp add: merge_rel_def)
  qed
qed

lemma matching_distinct: "distinct (matching name g)"
  by (simp add: matching_def)

lemma merge_edge_edges:
  "edges (merge_edge source target rel_type g) =
     edges g @ filter (\<lambda>e. e \<notin> set (edges g))
                 (map (\<lambda>(a, b). (a, rel_type, b))
                    (List.product (matching source g) (matching target g)))"
proof -
  have "distinct (List.product (matching source g) (matching target g))"
    by (simp add: distinct_product matching_distinct)
  from merge_rows_append[OF this, of rel_type "edges g"] show ?thesis
    by (simp add: merge_edge_def case_prod_unfold)
qed

lemma edges_between_matching:
  "edges_between source target rel_type g =
     filter (\<lambda>e. e \<in> (\<lambda>(a, b). (a, rel_type, b)) ` (set (matching source g) \<times> set (matching target g)))
       (edges g)"
  unfolding edges_between_def
  by (rule filter_cong[OF refl]) (auto simp: matching_iff image_iff)

lemma edges_between_count:
  assumes "distinct (edges g)"
  shows "length (edges_between source target rel_type (merge_edge source target rel_type g)) =
           length (matching source g) * length (matching target g)"
proof -
  let ?g1 = "merge_edge source target rel_type g"
  let ?mk = "\<lambda>(a, b). (a, rel_type, b) :: nat \<times> string \<times> nat"
  let ?S = "set (matching source g) \<times> set (matching target g)"
  have d: "distinct (edges_between source target rel_type ?g1)"
    unfolding edges_between_def using merge_edge_distinct[OF assms] by simp
  have "set (edges_between source target rel_type ?g1) = ?mk ` ?S"
    unfolding edges_between_matching merge_edge_matching
    by (auto simp: merge_edge_edges_set)
  then have "length (edges_between source target rel_type ?g1) = card (?mk ` ?S)"
    using distinct_card[OF d] by simp
  also have "\<dots> = card ?S"
    by (rule card_image) (auto simp: inj_on_def)
  also have "\<dots> = length (matching source g) * length (matching target g)"
    by (simp add: card_cartesian_product distinct_card matching_distinct)
  finally show ?thesis .
qed

lemma filter_single:
  "distinct xs \<Longrightarrow> e \<in> set xs \<Longrightarrow> \<forall>x\<in>set xs. P x \<longleftrightarrow> x = e \<Longrightarrow> filter P xs = [e]"
proof (induction xs)
  case Nil
  then show ?case by simp
next
  case (Cons x xs)
  show ?case
  proof (cases "x = e")
    case True
    with Cons.prems have "\<forall>y\<in>set xs. \<not> P y" by auto
    then have "filter P xs = []" by (simp add: filter_empty_conv)
    with True Cons.prems show ?thesis by simp
  next
    case False
    with Cons show ?thesis by auto
  qed
qed

text \<open>
  Claim C3 says that merging a triple twice yields exactly one edge of the type between
  the nodes. The statement binds every node that carries the \<^verbatim>\<open>id\<close>, and binds
  nothing when no node carries it. On the graph of A and B there is no node C: the
  statement for (A, C) leaves the graph as it is, with no edge. After the tool has
  stored Bloomberg both as a company and as a person, and the relationship from
  Bloomberg to Acme Corp, the one triple has two edges, one from each Bloomberg node,
  and the statement applied once more keeps both.
\<close>

theorem edge_upsert_counterexample:
  "neo4j_query (MergeEdge ''A'' ''C'' ''INVESTED_IN'') two_nodes = Inr two_nodes \<and>
   edges_between ''A'' ''C'' ''INVESTED_IN'' two_nodes = [] \<and>
   snd (research_and_learn (answering_env investor_data) ''Bloomberg'' empty_graph) =
     \<lparr>nodes = [\<lparr>labels = [''Investor'', ''Organization''], node_id = ''Bloomberg''\<rparr>,
               \<lparr>labels = [''Organization''], node_id = ''Acme Corp''\<rparr>,
               \<lparr>labels = [''Investor'', ''Person''], node_id = ''Bloomberg''\<rparr>],
      edges = [(0, ''INVESTED_IN'', 1), (2, ''INVESTED_IN'', 1)]\<rparr> \<and>
   edges_between ''Bloomberg'' ''Acme Corp'' ''INVESTED_IN''
       (snd (research_and_learn (answering_env investor_data) ''Bloomberg'' empty_graph)) =
     [(0, ''INVESTED_IN'', 1), (2, ''INVESTED_IN'', 1)] \<and>
   neo4j_query (MergeEdge ''Bloomberg'' ''Acme Corp'' ''INVESTED_IN'')
       (snd (research_and_learn (answering_env investor_data) ''Bloomberg'' empty_graph)) =
     Inr (snd (research_and_learn (answering_env investor_data) ''Bloomberg'' empty_graph))"
  by code_simp

text \<open>
  Claim C3, amended. For every source, target and relationship type that is a name,
  and every graph, the edge statement succeeds and gives the graph with the same
  nodes and, after the edges it had, one new edge for each pair of a node carrying the
  source \<^verbatim>\<open>id\<close> and a node carrying the target \<^verbatim>\<open>id\<close> that had no edge of the type;
  applied to that graph again, the statement gives the same graph. When the graph held
  no duplicate edge, it holds none afterwards, and the edges of the type from a node
  with the source \<^verbatim>\<open>id\<close> to a node with the target \<^verbatim>\<open>id\<close> are as many as the product of
  the numbers of such nodes: exactly one when each \<^verbatim>\<open>id\<close> is carried by exactly one
  node, none when an \<^verbatim>\<open>id\<close> is carried by no node.
\<close>

theorem edge_upsert_idempotent:
  assumes "cypher_name rel_type"
  shows "\<exists>g1. neo4j_query (MergeEdge source target rel_type) g = Inr g1 \<and>
           neo4j_query (MergeEdge source target rel_type) g1 = Inr g1 \<and>
           nodes g1 = nodes g \<and>
           edges g1 = edges g @ filter (\<lambda>e. e \<notin> set (edges g))
                                  (map (\<lambda>(a, b). (a, rel_type, b))
                                     (List.product (matching source g) (matching target g))) \<and>
           (distinct (edges g) \<longrightarrow>
              distinct (edges g1) \<and>
              length (edges_between source target rel_type g1) =
                length (matching source g) * length (matching target g)) \<and>
           (\<forall>a b. distinct (edges g) \<and> matching source g = [a] \<and> matching target g = [b] \<longrightarrow>
              edges_between source target rel_type g1 = [(a, rel_type, b)])"
proof -
  let ?g1 = "merge_edge source target rel_type g"
  have 1: "neo4j_query (MergeEdge source target rel_type) g = Inr ?g1"
    using assms by simp
  have 2: "neo4j_query (MergeEdge source target rel_type) ?g1 = Inr ?g1"
    using assms by (simp add: merge_edge_twice)
  have 3: "nodes ?g1 = nodes g" by (rule merge_edge_nodes)
  have 4: "edges ?g1 = edges g @ filter (\<lambda>e. e \<notin> set (edges g))
                                  (map (\<lambda>(a, b). (a, rel_type, b))
                                     (List.product (matching source g) (matching target g)))"
    by (rule merge_edge_edges)
  have 5: "distinct (edges g) \<longrightarrow>
              distinct (edges ?g1) \<and>
              length (edges_between source target rel_type ?g1) =
                length (matching source g) * length (matching target g)"
    by (simp add: merge_edge_distinct edges_between_count)
  have 6: "\<forall>a b. distinct (edges g) \<and> matching source g = [a] \<and> matching target g = [b] \<longrightarrow>
              edges_between source target rel_type ?g1 = [(a, rel_type, b)]"
  proof (intro allI impI)
    fix a b
    assume h: "distinct (edges g) \<and> matching source g = [a] \<and> matching target g = [b]"
    then have d: "distinct (edges ?g1)" by (simp add: merge_edge_distinct)
    have m: "(a, rel_type, b) \<in> set (edges ?g1)" using h by (simp add: merge_edge_edges_set)
    have "\<forall>e\<in>set (edges ?g1).
        (e \<in> (\<lambda>(a, b). (a, rel_type, b)) ` (set (matching source ?g1) \<times> set (matching target ?g1)))
          \<longleftrightarrow> e = (a, rel_type, b)"
      using h by (simp add: merge_edge_matching)
    from filter_single[OF d m this]
    show "edges_between source target rel_type ?g1 = [(a, rel_type, b)]"
      by (simp add: edges_between_matching)
  qed
  from 1 2 3 4 5 6 show ?thesis by blast
qed

text \<open>
  The theorem on the graph of the two nodes A and B: the first application adds the
  edge from A to B, the second adds nothing, and there is one edge between the two.
\<close>

theorem edge_upsert_idempotent_witness:
  "cypher_name ''INVESTED_IN'' \<and> distinct (edges two_nodes) \<and>
   matching ''A'' two_nodes = [0] \<and> matching ''B'' two_nodes = [1] \<and>
   neo4j_query (MergeEdge ''A'' ''B'' ''INVESTED_IN'') two_nodes =
     Inr (two_nodes\<lparr>edges := [(0, ''INVESTED_IN'', 1)]\<rparr>) \<and>
   neo4j_query (MergeEdge ''A'' ''B'' ''INVESTED_IN'') (two_nodes\<lparr>edges := [(0, ''INVESTED_IN'', 1)]\<rparr>) =
     Inr (two_nodes\<lparr>edges := [(0, ''INVESTED_IN'', 1)]\<rparr>) \<and>
   edges_between ''A'' ''B'' ''INVESTED_IN'' (two_nodes\<lparr>edges := [(0, ''INVESTED_IN'', 1)]\<rparr>) =
     [(0, ''INVESTED_IN'', 1)]"
proof -
  have c: "cypher_name ''INVESTED_IN''" by code_simp
  have d: "distinct (edges two_nodes)" by (simp add: two_nodes_def)
  have a: "matching ''A'' two_nodes = [0]" by code_simp
  have b: "matching ''B'' two_nodes = [1]" by code_simp
  have q: "neo4j_query (MergeEdge ''A'' ''B'' ''INVESTED_IN'') two_nodes =
     Inr (two_nodes\<lparr>edges := [(0, ''INVESTED_IN'', 1)]\<rparr>)" by code_simp
  from edge_upsert_idempotent[OF c, of "''A''" "''B''" two_nodes] obtain g1 where
    g1: "neo4j_query (MergeEdge ''A'' ''B'' ''INVESTED_IN'') two_nodes = Inr g1"
      "neo4j_query (MergeEdge ''A'' ''B'' ''INVESTED_IN'') g1 = Inr g1"
      "\<forall>a b. distinct (edges two_nodes) \<and> matching ''A'' two_nodes = [a] \<and>
             matching ''B'' two_nodes = [b] \<longrightarrow>
         edges_between ''A'' ''B'' ''INVESTED_IN'' g1 = [(a, ''INVESTED_IN'', b)]"
    by blast
  from g1(1) q have e: "g1 = two_nodes\<lparr>edges := [(0, ''INVESTED_IN'', 1)]\<rparr>" by simp
  from g1(3)[rule_format, of 0 1] d a b
  have "edges_between ''A'' ''B'' ''INVESTED_IN'' g1 = [(0, ''INVESTED_IN'', 1)]" by simp
  with c d a b q g1(2) show ?thesis unfolding e by (intro conjI)
qed

subsection \<open>The order of the statements\<close>

text \<open>
  Each loop on the logging store does what it does on the store itself, and adds to the
  log: node merges for the first loop, blocks of the relationship loop for the second.
\<close>

lemma graph_query_with_log [simp]: "graph_query (with_log env) = logged (graph_query env)"
  by (simp add: with_log_def)

lemma merge_items_log:
  "merge_items (with_log env) label items (s, log) = (r, (s', log')) \<Longrightarrow>
     merge_items env label items s = (r, s') \<and>
     (\<exists>ns. log' = log @ ns \<and> (\<forall>st\<in>set ns. is_node_merge st))"
proof (induction items arbitrary: s log)
  case Nil
  then show ?case by simp
next
  case (Cons item items)
  show ?case
  proof (cases "graph_query env (MergeNode label item) s")
    case (Inl e)
    with Cons.prems show ?thesis by (simp add: logged_def)
  next
    case (Inr s1)
    with Cons.prems have
      "merge_items (with_log env) label items (s1, log @ [MergeNode label item]) = (r, (s', log'))"
      by (simp add: logged_def)
    from Cons.IH[OF this] obtain ns where
      "merge_items env label items s1 = (r, s')"
      "log' = (log @ [MergeNode label item]) @ ns" "\<forall>st\<in>set ns. is_node_merge st" by blast
    then have "merge_items env label (item # items) s = (r, s')"
      and "log' = log @ (MergeNode label item # ns)"
      and "\<forall>st\<in>set (MergeNode label item # ns). is_node_merge st"
      using Inr by simp_all
    then show ?thesis by blast
  qed
qed

lemma create_nodes_log:
  "create_nodes (with_log env) data keys (s, log) = (r, (s', log')) \<Longrightarrow>
     create_nodes env data keys s = (r, s') \<and>
     (\<exists>ns. log' = log @ ns \<and> (\<forall>st\<in>set ns. is_node_merge st))"
proof (induction keys arbitrary: s log)
  case Nil
  then show ?case by simp
next
  case (Cons key keys)
  obtain r1 s1 log1 where m:
    "merge_items (with_log env) (label_of_key key) (data_get data key) (s, log) = (r1, (s1, log1))"
    by (metis surj_pair)
  from merge_items_log[OF m] obtain ns1 where m':
    "merge_items env (label_of_key key) (data_get data key) s = (r1, s1)"
    "log1 = log @ ns1" "\<forall>st\<in>set ns1. is_node_merge st" by blast
  show ?case
  proof (cases r1)
    case (Some e)
    with m m' Cons.prems show ?thesis by auto
  next
    case None
    with m Cons.prems have "create_nodes (with_log env) data keys (s1, log1) = (r, (s', log'))"
      by simp
    from Cons.IH[OF this] obtain ns where
      "create_nodes env data keys s1 = (r, s')" "log' = log1 @ ns"
      "\<forall>st\<in>set ns. is_node_merge st" by blast
    then have "create_nodes env data (key # keys) s = (r, s')"
      and "log' = log @ (ns1 @ ns)" and "\<forall>st\<in>set (ns1 @ ns). is_node_merge st"
      using m' None by auto
    then show ?thesis by blast
  qed
qed

lemma promote_investor_log:
  "promote_investor (with_log env) rel rel_type (s, log) = (r, (s', log')) \<Longrightarrow>
     promote_investor env rel rel_type s = (r, s') \<and>
     (log' = log \<and> (rel_type = ''INVESTED_IN'' \<longrightarrow> r \<noteq> None) \<or>
      rel_type = ''INVESTED_IN'' \<and> r = None \<and>
      (\<exists>source. map_of rel ''source'' = Some source \<and> log' = log @ [SetLabel source ''Investor'']))"
  unfolding promote_investor_def
  by (auto simp: logged_def split: if_splits option.splits sum.splits)

lemma merge_relationship_log:
  "merge_relationship (with_log env) rel rel_type (s, log) = (r, (s', log')) \<Longrightarrow>
     merge_relationship env rel rel_type s = (r, s') \<and>
     (log' = log \<and> r \<noteq> None \<or>
      r = None \<and> (\<exists>source target. map_of rel ''source'' = Some source \<and>
         log' = log @ [MergeEdge source target rel_type]))"
  unfolding merge_relationship_def
  by (auto simp: logged_def split: if_splits option.splits sum.splits)

lemma apply_relationship_log:
  assumes "apply_relationship (with_log env) rel (s, log) = (r, (s', log'))"
  shows "apply_relationship env rel s = (r, s') \<and> (\<exists>xs. log' = log @ xs \<and> rel_block xs)"
proof (cases "map_of rel ''type''")
  case None
  with assms show ?thesis by (simp add: apply_relationship_def rel_block_def)
next
  case (Some ty)
  let ?rt = "py_upper ty"
  obtain r1 s1 log1 where p:
    "promote_investor (with_log env) rel ?rt (s, log) = (r1, (s1, log1))"
    by (metis surj_pair)
  note p' = promote_investor_log[OF p]
  show ?thesis
  proof (cases r1)
    case (Some e)
    with p' have l: "log1 = log" and q: "promote_investor env rel ?rt s = (Some e, s1)"
      by auto
    from p Some \<open>map_of rel ''type'' = Some ty\<close> assms
    have "r = Some e" "s' = s1" "log' = log1" by (simp_all add: apply_relationship_def)
    with l q \<open>map_of rel ''type'' = Some ty\<close> show ?thesis
      by (simp add: apply_relationship_def rel_block_def)
  next
    case None
    with p Some assms \<open>map_of rel ''type'' = Some ty\<close>
    have m: "merge_relationship (with_log env) rel ?rt (s1, log1) = (r, (s', log'))"
      by (simp add: apply_relationship_def)
    from merge_relationship_log[OF m]
    have m1: "merge_relationship env rel ?rt s1 = (r, s')"
      and m': "log' = log1 \<and> r \<noteq> None \<or>
        r = None \<and> (\<exists>source target. map_of rel ''source'' = Some source \<and>
           log' = log1 @ [MergeEdge source target ?rt])" by simp_all
    have run: "apply_relationship env rel s = (r, s')"
      using p' m1 None \<open>map_of rel ''type'' = Some ty\<close> by (simp add: apply_relationship_def)
    have "\<exists>xs. log' = log @ xs \<and> rel_block xs"
    proof (cases "?rt = ''INVESTED_IN''")
      case True
      with p' None obtain source where src: "map_of rel ''source'' = Some source"
        "log1 = log @ [SetLabel source ''Investor'']" by auto
      from m' show ?thesis
      proof (rule disjE)
        assume "log' = log1 \<and> r \<noteq> None"
        with src have "log' = log @ [SetLabel source ''Investor'']" by simp
        moreover have "rel_block [SetLabel source ''Investor'']" by (simp add: rel_block_def)
        ultimately show ?thesis by blast
      next
        assume "r = None \<and> (\<exists>source target. map_of rel ''source'' = Some source \<and>
           log' = log1 @ [MergeEdge source target ?rt])"
        then obtain target where "log' = log1 @ [MergeEdge source target ?rt]"
          using src by auto
        with src True have "log' = log @ [SetLabel source ''Investor'',
            MergeEdge source target ''INVESTED_IN'']" by simp
        moreover have "rel_block [SetLabel source ''Investor'',
            MergeEdge source target ''INVESTED_IN'']" by (simp add: rel_block_def)
        ultimately show ?thesis by blast
      qed
    next
      case False
      with p' have l1: "log1 = log" by auto
      from m' show ?thesis
      proof (rule disjE)
        assume "log' = log1 \<and> r \<noteq> None"
        with l1 have "log' = log @ []" by simp
        moreover have "rel_block []" by (simp add: rel_block_def)
        ultimately show ?thesis by blast
      next
        assume "r = None \<and> (\<exists>source target. map_of rel ''source'' = Some source \<and>
           log' = log1 @ [MergeEdge source target ?rt])"
        then obtain source target where "log' = log @ [MergeEdge source target ?rt]"
          using l1 by auto
        moreover have "rel_block [MergeEdge source target ?rt]"
          using False by (simp add: rel_block_def)
        ultimately show ?thesis by blast
      qed
    qed
    with run show ?thesis by simp
  qed
qed

lemma rel_ok_Nil: "rel_ok []"
  by (simp add: rel_ok_def)

lemma rel_block_length: "rel_block xs \<Longrightarrow> length xs \<le> 2"
  by (auto simp: rel_block_def)

lemma rel_block_ok: "rel_block xs \<Longrightarrow> rel_ok xs"
  unfolding rel_block_def rel_ok_def
  by (auto simp: less_Suc_eq nth_Cons')

lemma rel_ok_append:
  assumes "rel_ok xs" and "rel_ok rs"
  shows "rel_ok (xs @ rs)"
proof -
  have a: "\<forall>j<length (xs @ rs). \<not> is_node_merge ((xs @ rs) ! j)"
    using assms by (auto simp: rel_ok_def nth_append)
  have c: "\<forall>j<length (xs @ rs). issued ((xs @ rs) ! j)"
    using assms by (auto simp: rel_ok_def nth_append)
  have b: "\<forall>j source target.
      j < length (xs @ rs) \<and> (xs @ rs) ! j = MergeEdge source target ''INVESTED_IN'' \<longrightarrow>
      0 < j \<and> (xs @ rs) ! (j - 1) = SetLabel source ''Investor''"
  proof (intro allI impI)
    fix j source target
    assume h: "j < length (xs @ rs) \<and> (xs @ rs) ! j = MergeEdge source target ''INVESTED_IN''"
    show "0 < j \<and> (xs @ rs) ! (j - 1) = SetLabel source ''Investor''"
    proof (cases "j < length xs")
      case True
      with h have "xs ! j = MergeEdge source target ''INVESTED_IN''" by (simp add: nth_append)
      with assms(1) True have "0 < j \<and> xs ! (j - 1) = SetLabel source ''Investor''"
        unfolding rel_ok_def by blast
      moreover from True have "j - 1 < length xs" by simp
      ultimately show ?thesis by (simp add: nth_append)
    next
      case False
      then have k: "j - length xs < length rs"
        "rs ! (j - length xs) = MergeEdge source target ''INVESTED_IN''"
        using h by (auto simp: nth_append)
      with assms(2)
      have "0 < j - length xs \<and> rs ! (j - length xs - 1) = SetLabel source ''Investor''"
        unfolding rel_ok_def by blast
      moreover from this have "j - 1 - length xs = j - length xs - 1" "\<not> j - 1 < length xs"
        by auto
      ultimately show ?thesis by (simp add: nth_append)
    qed
  qed
  from a b c show ?thesis unfolding rel_ok_def by (intro conjI)
qed

lemma create_relationships_log:
  "create_relationships (with_log env) rels (s, log) = (r, (s', log')) \<Longrightarrow>
     create_relationships env rels s = (r, s') \<and> (\<exists>rs. log' = log @ rs \<and> rel_ok rs)"
proof (induction rels arbitrary: s log)
  case Nil
  then show ?case by (simp add: rel_ok_Nil)
next
  case (Cons rel rels)
  obtain r1 s1 log1 where a:
    "apply_relationship (with_log env) rel (s, log) = (r1, (s1, log1))"
    by (metis surj_pair)
  from apply_relationship_log[OF a] obtain xs where a':
    "apply_relationship env rel s = (r1, s1)" "log1 = log @ xs" "rel_block xs" by blast
  show ?case
  proof (cases r1)
    case (Some e)
    with a a' Cons.prems show ?thesis using rel_block_ok by auto
  next
    case None
    with a Cons.prems have
      "create_relationships (with_log env) rels (s1, log1) = (r, (s', log'))" by simp
    from Cons.IH[OF this] obtain rs where
      "create_relationships env rels s1 = (r, s')" "log' = log1 @ rs" "rel_ok rs" by blast
    then have "create_relationships env (rel # rels) s = (r, s')"
      and "log' = log @ (xs @ rs)" and "rel_ok (xs @ rs)"
      using a' None rel_ok_append[OF rel_block_ok] by auto
    then show ?thesis by blast
  qed
qed

lemma write_graph_log:
  assumes "write_graph (with_log env) data (s, log) = (r, (s', log'))"
  shows "write_graph env data s = (r, s') \<and>
     (\<exists>ns rs. log' = log @ ns @ rs \<and> (\<forall>st\<in>set ns. is_node_merge st) \<and> rel_ok rs)"
proof -
  obtain r1 s1 log1 where c:
    "create_nodes (with_log env) data entity_keys (s, log) = (r1, (s1, log1))"
    by (metis surj_pair)
  from create_nodes_log[OF c] obtain ns where c':
    "create_nodes env data entity_keys s = (r1, s1)" "log1 = log @ ns"
    "\<forall>st\<in>set ns. is_node_merge st" by blast
  show ?thesis
  proof (cases r1)
    case (Some e)
    with c assms have "r = Some e" "s' = s1" "log' = log1" by (simp_all add: write_graph_def)
    with c' Some have "write_graph env data s = (r, s')" "log' = log @ ns @ []"
      by (simp_all add: write_graph_def)
    with c'(3) rel_ok_Nil show ?thesis by blast
  next
    case None
    let ?rels = "case relationships data of None \<Rightarrow> [] | Some rels \<Rightarrow> rels"
    from None c assms have
      "create_relationships (with_log env) ?rels (s1, log1) = (r, (s', log'))"
      by (simp add: write_graph_def)
    from create_relationships_log[OF this] obtain rs where
      "create_relationships env ?rels s1 = (r, s')" "log' = log1 @ rs" "rel_ok rs" by blast
    with c' None have "write_graph env data s = (r, s')" "log' = log @ ns @ rs"
      by (simp_all add: write_graph_def)
    with c'(3) \<open>rel_ok rs\<close> show ?thesis by blast
  qed
qed

lemma research_and_learn_log:
  assumes "research_and_learn (with_log env) topic (s, log) = (out, (s', log'))"
  shows "research_and_learn env topic s = (out, s') \<and>
     (\<exists>ns rs. log' = log @ ns @ rs \<and> (\<forall>st\<in>set ns. is_node_merge st) \<and> rel_ok rs)"
proof -
  have sel: "search_available (with_log env) = search_available env"
    "search_invoke (with_log env) = search_invoke env"
    "llm_invoke (with_log env) = llm_invoke env"
    "json_loads (with_log env) = json_loads env"
    by (simp_all add: with_log_def)
  have trivial: "\<exists>ns rs. log = log @ ns @ rs \<and> (\<forall>st\<in>set ns. is_node_merge st) \<and> rel_ok rs"
    using rel_ok_Nil by (intro exI[of _ "[]"]) simp
  show ?thesis
  proof (cases "search_available env")
    case False
    with assms sel trivial show ?thesis by (simp add: research_and_learn_def)
  next
    case avail: True
    show ?thesis
    proof (cases "search_invoke env (search_query topic)")
      case (Inl e)
      with assms sel trivial avail show ?thesis by (simp add: research_and_learn_def)
    next
      case (Inr raw_text)
      show ?thesis
      proof (cases "llm_invoke env (extraction_prompt raw_text)")
        case (Inl e)
        with assms sel trivial avail Inr show ?thesis by (simp add: research_and_learn_def)
      next
        case content: (Inr content)
        from assms sel avail Inr content
        have w: "write_and_summarize (with_log env) content (s, log) = (out, (s', log'))"
          by (simp add: research_and_learn_def)
        have r: "research_and_learn env topic s = write_and_summarize env content s"
          using avail Inr content by (simp add: research_and_learn_def)
        show ?thesis
        proof (cases "json_loads env (clean_json content)")
          case (Inl e)
          with w sel trivial r show ?thesis by (simp add: write_and_summarize_def)
        next
          case data: (Inr data)
          obtain r1 s1 log1 where g:
            "write_graph (with_log env) data (s, log) = (r1, (s1, log1))"
            by (metis surj_pair)
          from write_graph_log[OF g] obtain ns rs where g':
            "write_graph env data s = (r1, s1)" "log1 = log @ ns @ rs"
            "\<forall>st\<in>set ns. is_node_merge st" "rel_ok rs" by blast
          from w sel data g have "s' = s1" "log' = log1"
            "out = (case r1 of Some e \<Rightarrow> Returned (''Error: '' @ e) | None \<Rightarrow> Returned (summary data))"
            by (auto simp: write_and_summarize_def split: option.splits)
          with g' r data have "research_and_learn env topic s = (out, s')"
            "log' = log @ ns @ rs"
            by (auto simp: write_and_summarize_def split: option.splits)
          with g'(3,4) show ?thesis by blast
        qed
      qed
    qed
  qed
qed

lemma set_label_nodes:
  "length (nodes (set_label name label g)) = length (nodes g)"
  by (simp add: set_label_def)

lemma set_label_nth:
  "i < length (nodes g) \<Longrightarrow>
     node_id (nodes (set_label name label g) ! i) = node_id (nodes g ! i) \<and>
     set (labels (nodes (set_label name label g) ! i)) =
       set (labels (nodes g ! i)) \<union> (if node_id (nodes g ! i) = name then {label} else {})"
  by (simp add: set_label_def)

text \<open>
  Claim C5. Run the tool on a store that logs the statements it carries out, whatever the
  store does otherwise. The outcome and the store are those of the run without the log.
  In the log every node merge stands before every statement that is not a node merge,
  so before every edge merge; and every \<^verbatim>\<open>INVESTED_IN\<close> edge merge stands right after
  the statement that sets \<^verbatim>\<open>Investor\<close> on its source. That statement creates no node
  and changes no \<^verbatim>\<open>id\<close>; it adds \<^verbatim>\<open>Investor\<close> to the labels of the nodes with the
  source's \<^verbatim>\<open>id\<close> and leaves every other label in place.
\<close>

theorem ingestion_order:
  assumes "research_and_learn (with_log env) topic (s, []) = (out, (s', log))"
  shows "research_and_learn env topic s = (out, s') \<and>
     (\<forall>i j. i < length log \<and> j < length log \<and>
        is_node_merge (log ! i) \<and> \<not> is_node_merge (log ! j) \<longrightarrow> i < j) \<and>
     (\<forall>j source target.
        j < length log \<and> log ! j = MergeEdge source target ''INVESTED_IN'' \<longrightarrow>
        0 < j \<and> log ! (j - 1) = SetLabel source ''Investor'') \<and>
     (\<forall>source g. length (nodes (set_label source ''Investor'' g)) = length (nodes g) \<and>
        (\<forall>i<length (nodes g).
           node_id (nodes (set_label source ''Investor'' g) ! i) = node_id (nodes g ! i) \<and>
           set (labels (nodes (set_label source ''Investor'' g) ! i)) =
             set (labels (nodes g ! i)) \<union>
             (if node_id (nodes g ! i) = source then {''Investor''} else {})))"
proof -
  from research_and_learn_log[OF assms] obtain ns rs where
    run: "research_and_learn env topic s = (out, s')" and
    log: "log = ns @ rs" and ns: "\<forall>st\<in>set ns. is_node_merge st" and rs: "rel_ok rs"
    by auto
  have order: "\<forall>i j. i < length log \<and> j < length log \<and>
        is_node_merge (log ! i) \<and> \<not> is_node_merge (log ! j) \<longrightarrow> i < j"
  proof (intro allI impI)
    fix i j
    assume h: "i < length log \<and> j < length log \<and>
        is_node_merge (log ! i) \<and> \<not> is_node_merge (log ! j)"
    have "i < length ns"
    proof (rule ccontr)
      assume "\<not> i < length ns"
      with h log have "i - length ns < length rs" "log ! i = rs ! (i - length ns)"
        by (auto simp: nth_append)
      with rs h show False unfolding rel_ok_def by auto
    qed
    moreover have "\<not> j < length ns"
    proof
      assume "j < length ns"
      with log ns have "is_node_merge (log ! j)" by (simp add: nth_append)
      with h show False by simp
    qed
    ultimately show "i < j" by simp
  qed
  have promoted: "\<forall>j source target.
        j < length log \<and> log ! j = MergeEdge source target ''INVESTED_IN'' \<longrightarrow>
        0 < j \<and> log ! (j - 1) = SetLabel source ''Investor''"
  proof (intro allI impI)
    fix j source target
    assume h: "j < length log \<and> log ! j = MergeEdge source target ''INVESTED_IN''"
    have "\<not> j < length ns"
    proof
      assume "j < length ns"
      with log ns have "is_node_merge (log ! j)" by (simp add: nth_append)
      with h show False by simp
    qed
    with h log have k: "j - length ns < length rs"
      "rs ! (j - length ns) = MergeEdge source target ''INVESTED_IN''"
      by (auto simp: nth_append)
    with rs have "0 < j - length ns \<and> rs ! (j - length ns - 1) = SetLabel source ''Investor''"
      unfolding rel_ok_def by blast
    moreover from this have "j - 1 - length ns = j - length ns - 1" "\<not> j - 1 < length ns"
      by auto
    ultimately show "0 < j \<and> log ! (j - 1) = SetLabel source ''Investor''"
      using log by (simp add: nth_append)
  qed
  have labels_kept: "\<forall>source g. length (nodes (set_label source ''Investor'' g)) = length (nodes g) \<and>
        (\<forall>i<length (nodes g).
           node_id (nodes (set_label source ''Investor'' g) ! i) = node_id (nodes g ! i) \<and>
           set (labels (nodes (set_label source ''Investor'' g) ! i)) =
             set (labels (nodes g ! i)) \<union>
             (if node_id (nodes g ! i) = source then {''Investor''} else {}))"
    using set_label_nodes set_label_nth by blast
  from run order promoted labels_kept show ?thesis by (intro conjI)
qed

text \<open>
  The theorem on the scenario of the specification: three node merges, the \<^verbatim>\<open>LEADS\<close>
  edge, the promotion of Acorn Ventures and its \<^verbatim>\<open>INVESTED_IN\<close> edge.
\<close>

theorem ingestion_order_witness:
  "snd (snd (research_and_learn (with_log (answering_env acme_data)) ''Acme'' (empty_graph, [])))
     = [MergeNode ''Organization'' ''Acme Corp'', MergeNode ''Organization'' ''Acorn Ventures'',
        MergeNode ''Person'' ''Jane Doe'', MergeEdge ''Jane Doe'' ''Acme Corp'' ''LEADS'',
        SetLabel ''Acorn Ventures'' ''Investor'',
        MergeEdge ''Acorn Ventures'' ''Acme Corp'' ''INVESTED_IN''] \<and>
   snd (research_and_learn (answering_env acme_data) ''Acme'' empty_graph) =
     fst (snd (research_and_learn (with_log (answering_env acme_data)) ''Acme'' (empty_graph, []))) \<and>
   (0::nat) < 5 \<and>
   snd (snd (research_and_learn (with_log (answering_env acme_data)) ''Acme'' (empty_graph, []))) ! (5 - 1)
     = SetLabel ''Acorn Ventures'' ''Investor''"
proof -
  let ?run = "research_and_learn (with_log (answering_env acme_data)) ''Acme'' (empty_graph, [])"
  obtain out s' log where run: "?run = (out, (s', log))" by (metis surj_pair)
  have "snd (snd ?run) = [MergeNode ''Organization'' ''Acme Corp'',
        MergeNode ''Organization'' ''Acorn Ventures'',
        MergeNode ''Person'' ''Jane Doe'', MergeEdge ''Jane Doe'' ''Acme Corp'' ''LEADS'',
        SetLabel ''Acorn Ventures'' ''Investor'',
        MergeEdge ''Acorn Ventures'' ''Acme Corp'' ''INVESTED_IN'']"
    by code_simp
  with run have log: "log = [MergeNode ''Organization'' ''Acme Corp'',
        MergeNode ''Organization'' ''Acorn Ventures'',
        MergeNode ''Person'' ''Jane Doe'', MergeEdge ''Jane Doe'' ''Acme Corp'' ''LEADS'',
        SetLabel ''Acorn Ventures'' ''Investor'',
        MergeEdge ''Acorn Ventures'' ''Acme Corp'' ''INVESTED_IN'']" by simp
  note T = ingestion_order[OF run]
  have h: "5 < length log \<and> log ! 5 = MergeEdge ''Acorn Ventures'' ''Acme Corp'' ''INVESTED_IN''"
    by (simp add: log)
  from T[THEN conjunct1] have 1: "snd (research_and_learn (answering_env acme_data) ''Acme'' empty_graph) = s'"
    by simp
  from T[THEN conjunct2, THEN conjunct2, THEN conjunct1, rule_format, OF h]
  have 2: "(0::nat) < 5 \<and> log ! (5 - 1) = SetLabel ''Acorn Ventures'' ''Investor''" .
  from 1 2 log run show ?thesis by simp
qed

subsection \<open>What a run of the tool preserves\<close>

text \<open>
  A property of the store that every issued statement preserves is preserved by each
  loop and by the tool, whatever the outcome.
\<close>

lemma merge_items_preserves:
  assumes step: "\<And>st s s'. issued st \<Longrightarrow> graph_query env st s = Inr s' \<Longrightarrow> P s \<Longrightarrow> P s'"
  shows "P s \<Longrightarrow> merge_items env label items s = (r, s') \<Longrightarrow> P s'"
proof (induction items arbitrary: s)
  case Nil
  then show ?case by simp
next
  case (Cons item items)
  show ?case
  proof (cases "graph_query env (MergeNode label item) s")
    case (Inl e)
    with Cons.prems show ?thesis by simp
  next
    case (Inr s1)
    have "P s1" by (rule step[OF _ Inr Cons.prems(1)]) simp
    moreover from Inr Cons.prems(2) have "merge_items env label items s1 = (r, s')" by simp
    ultimately show ?thesis by (rule Cons.IH)
  qed
qed

lemma create_nodes_preserves:
  assumes step: "\<And>st s s'. issued st \<Longrightarrow> graph_query env st s = Inr s' \<Longrightarrow> P s \<Longrightarrow> P s'"
  shows "P s \<Longrightarrow> create_nodes env data keys s = (r, s') \<Longrightarrow> P s'"
proof (induction keys arbitrary: s)
  case Nil
  then show ?case by simp
next
  case (Cons key keys)
  obtain r1 s1 where m: "merge_items env (label_of_key key) (data_get data key) s = (r1, s1)"
    by (metis surj_pair)
  have p1: "P s1" by (rule merge_items_preserves[of env P, OF step Cons.prems(1) m])
  show ?case
  proof (cases r1)
    case (Some e)
    with m Cons.prems(2) p1 show ?thesis by simp
  next
    case None
    with m Cons.prems(2) have "create_nodes env data keys s1 = (r, s')" by simp
    with p1 show ?thesis by (rule Cons.IH)
  qed
qed

lemma promote_investor_preserves:
  assumes step: "\<And>st s s'. issued st \<Longrightarrow> graph_query env st s = Inr s' \<Longrightarrow> P s \<Longrightarrow> P s'"
    and "P s" and "promote_investor env rel rel_type s = (r, s')"
  shows "P s'"
proof (cases "rel_type = ''INVESTED_IN''")
  case False
  with assms(2,3) show ?thesis by (simp add: promote_investor_def)
next
  case True
  show ?thesis
  proof (cases "map_of rel ''source''")
    case None
    with True assms(2,3) show ?thesis by (simp add: promote_investor_def)
  next
    case (Some source)
    show ?thesis
    proof (cases "graph_query env (SetLabel source ''Investor'') s")
      case (Inl e)
      with True Some assms(2,3) show ?thesis by (simp add: promote_investor_def)
    next
      case (Inr s1)
      have "P s1" by (rule step[OF _ Inr assms(2)]) simp
      with True Some Inr assms(3) show ?thesis by (simp add: promote_investor_def)
    qed
  qed
qed

lemma merge_relationship_preserves:
  assumes step: "\<And>st s s'. issued st \<Longrightarrow> graph_query env st s = Inr s' \<Longrightarrow> P s \<Longrightarrow> P s'"
    and "P s" and "merge_relationship env rel rel_type s = (r, s')"
  shows "P s'"
proof (cases "map_of rel ''source''")
  case None
  with assms(2,3) show ?thesis by (simp add: merge_relationship_def)
next
  case (Some source)
  show ?thesis
  proof (cases "map_of rel ''target''")
    case None
    with Some assms(2,3) show ?thesis by (simp add: merge_relationship_def)
  next
    case tgt: (Some target)
    show ?thesis
    proof (cases "graph_query env (MergeEdge source target rel_type) s")
      case (Inl e)
      with Some tgt assms(2,3) show ?thesis by (simp add: merge_relationship_def)
    next
      case (Inr s1)
      have "P s1" by (rule step[OF _ Inr assms(2)]) simp
      with Some tgt Inr assms(3) show ?thesis by (simp add: merge_relationship_def)
    qed
  qed
qed

lemma apply_relationship_preserves:
  assumes step: "\<And>st s s'. issued st \<Longrightarrow> graph_query env st s = Inr s' \<Longrightarrow> P s \<Longrightarrow> P s'"
    and "P s" and "apply_relationship env rel s = (r, s')"
  shows "P s'"
proof (cases "map_of rel ''type''")
  case None
  with assms(2,3) show ?thesis by (simp add: apply_relationship_def)
next
  case (Some ty)
  obtain r1 s1 where p: "promote_investor env rel (py_upper ty) s = (r1, s1)"
    by (metis surj_pair)
  have p1: "P s1" by (rule promote_investor_preserves[of env P, OF step assms(2) p])
  show ?thesis
  proof (cases r1)
    case e: (Some e)
    with p Some assms(3) p1 show ?thesis by (simp add: apply_relationship_def)
  next
    case None
    with p Some assms(3) have "merge_relationship env rel (py_upper ty) s1 = (r, s')"
      by (simp add: apply_relationship_def)
    from merge_relationship_preserves[of env P, OF step p1 this] show ?thesis .
  qed
qed

lemma create_relationships_preserves:
  assumes step: "\<And>st s s'. issued st \<Longrightarrow> graph_query env st s = Inr s' \<Longrightarrow> P s \<Longrightarrow> P s'"
  shows "P s \<Longrightarrow> create_relationships env rels s = (r, s') \<Longrightarrow> P s'"
proof (induction rels arbitrary: s)
  case Nil
  then show ?case by simp
next
  case (Cons rel rels)
  obtain r1 s1 where a: "apply_relationship env rel s = (r1, s1)" by (metis surj_pair)
  have p1: "P s1" by (rule apply_relationship_preserves[of env P, OF step Cons.prems(1) a])
  show ?case
  proof (cases r1)
    case (Some e)
    with a Cons.prems(2) p1 show ?thesis by simp
  next
    case None
    with a Cons.prems(2) have "create_relationships env rels s1 = (r, s')" by simp
    with p1 show ?thesis by (rule Cons.IH)
  qed
qed

lemma write_graph_preserves:
  assumes step: "\<And>st s s'. issued st \<Longrightarrow> graph_query env st s = Inr s' \<Longrightarrow> P s \<Longrightarrow> P s'"
    and "P s" and "write_graph env data s = (r, s')"
  shows "P s'"
proof -
  obtain r1 s1 where c: "create_nodes env data entity_keys s = (r1, s1)" by (metis surj_pair)
  have p1: "P s1" by (rule create_nodes_preserves[of env P, OF step assms(2) c])
  show ?thesis
  proof (cases r1)
    case (Some e)
    with c assms(3) p1 show ?thesis by (simp add: write_graph_def)
  next
    case None
    with c assms(3) have "create_relationships env
        (case relationships data of None \<Rightarrow> [] | Some rels \<Rightarrow> rels) s1 = (r, s')"
      by (simp add: write_graph_def)
    from create_relationships_preserves[of env P, OF step p1 this] show ?thesis .
  qed
qed

lemma research_and_learn_preserves:
  assumes step: "\<And>st s s'. issued st \<Longrightarrow> graph_query env st s = Inr s' \<Longrightarrow> P s \<Longrightarrow> P s'"
    and "P s" and "research_and_learn env topic s = (out, s')"
  shows "P s'"
proof (cases "search_available env")
  case False
  with assms(2,3) show ?thesis by (simp add: research_and_learn_def)
next
  case avail: True
  show ?thesis
  proof (cases "search_invoke env (search_query topic)")
    case (Inl e)
    with avail assms(2,3) show ?thesis by (simp add: research_and_learn_def)
  next
    case (Inr raw_text)
    show ?thesis
    proof (cases "llm_invoke env (extraction_prompt raw_text)")
      case (Inl e)
      with avail Inr assms(2,3) show ?thesis by (simp add: research_and_learn_def)
    next
      case content: (Inr content)
      with avail Inr assms(3) have w: "write_and_summarize env content s = (out, s')"
        by (simp add: research_and_learn_def)
      show ?thesis
      proof (cases "json_loads env (clean_json content)")
        case (Inl e)
        with w assms(2) show ?thesis by (simp add: write_and_summarize_def)
      next
        case data: (Inr data)
        obtain r1 s1 where g: "write_graph env data s = (r1, s1)" by (metis surj_pair)
        have "P s1" by (rule write_graph_preserves[of env P, OF step assms(2) g])
        moreover from w data g have "s' = s1"
          by (auto simp: write_and_summarize_def split: option.splits)
        ultimately show ?thesis by simp
      qed
    qed
  qed
qed












text \<open>No statement duplicates an edge, so a run of the tool keeps a graph free of duplicate edges.\<close>

lemma neo4j_query_edges_distinct:
  "neo4j_query st g = Inr g' \<Longrightarrow> distinct (edges g) \<Longrightarrow> distinct (edges g')"
  by (cases st)
     (auto simp: merge_node_def set_label_def merge_edge_distinct split: if_splits)

lemma research_and_learn_edges_distinct:
  assumes "graph_query env = neo4j_query" and "distinct (edges g)"
    and "research_and_learn env topic g = (out, g')"
  shows "distinct (edges g')"
proof (rule research_and_learn_preserves[of env "\<lambda>g. distinct (edges g)", OF _ assms(2,3)])
  fix st s s'
  assume "graph_query env st s = Inr s'" "distinct (edges s)"
  with assms(1) show "distinct (edges s')" by (simp add: neo4j_query_edges_distinct)
qed




section \<open>Properties of the interpolated statements\<close>









text \<open>
  Claim C2 asks that a value spliced into a statement be read as one literal whatever the
  value is. The escaping of the source handles the quote only, and a backslash in the
  value undoes it. For the query \<^verbatim>\<open>\') OR TRUE //\<close> of the graph endpoint: the focus
  entity is the query, title-cased; the statement holds two backslashes and a quote
  after the template's opening quote; the literal that Cypher reads there is the single
  backslash, and the rest of the value, \<^verbatim>\<open>) Or True //\<close>, is statement text before the
  template's own closing quote.
\<close>

theorem center_query_injection:
  "extract_entity_from_query ([backslash, quote] @ '') OR TRUE //'') =
     [backslash, quote] @ '') Or True //'' \<and>
   get_graph_center_query ([backslash, quote] @ '') OR TRUE //'') =
     center_prefix @ [backslash, backslash, quote] @ '') Or True //'' @ center_suffix \<and>
   scan_literal ([backslash, backslash, quote] @ '') Or True //'' @ center_suffix) =
     Some ([backslash], '') Or True //'' @ center_suffix)"
  by code_simp

subsection \<open>The competition edges\<close>











end
